theory Spec2Isabelle
  imports Main "HOL-Library.AList" "HOL-Library.Sublist"
begin

section \<open>Site settings: data shapes (src/client/lib/siteSettingsTypes.ts)\<close>

text \<open>
  The interfaces of \<^verbatim>\<open>siteSettingsTypes.ts\<close> become records. The optional members
  \<^verbatim>\<open>order?\<close>, \<^verbatim>\<open>openInNewTab?\<close> and \<^verbatim>\<open>href?\<close> are options. The two link interfaces
  both have members \<^verbatim>\<open>label\<close> and \<^verbatim>\<open>href\<close>; the footer link's are prefixed with
  \<open>fl_\<close> because record fields are global constants.
\<close>

record NavigationItem =
  label :: string
  href :: string
  order :: "int option"
  openInNewTab :: "bool option"

record FooterLink =
  fl_label :: string
  fl_href :: "string option"

datatype platform = facebook | instagram | twitter | linkedin | youtube

record SocialLink =
  platform :: platform
  url :: string
  enabled :: bool

record SiteSettings =
  siteName :: string
  logoUrl :: string
  logoAlt :: string
  phoneNumber :: string
  phoneDisplay :: string
  phoneAvailability :: string
  applyPhoneGlobally :: bool
  headerCtaText :: string
  headerCtaUrl :: string
  navigationItems :: "NavigationItem list"
  footerAboutLinks :: "FooterLink list"
  footerPracticeLinks :: "FooterLink list"
  addressLine1 :: string
  addressLine2 :: string
  mapEmbedUrl :: string
  socialLinks :: "SocialLink list"
  copyrightText :: string
  siteNoindex :: bool
  ga4MeasurementId :: string
  googleAdsId :: string
  googleAdsConversionLabel :: string
  headScripts :: string
  footerScripts :: string

text \<open>
  The database row. A member read from the JSON of the response is \<open>None\<close> when it is
  \<^verbatim>\<open>null\<close> or missing (\<^verbatim>\<open>undefined\<close>): the code tests every member it reads with
  \<^verbatim>\<open>||\<close>, \<^verbatim>\<open>??\<close> or \<^verbatim>\<open>?.length\<close>, which treat the two alike, also for the members the
  interface declares non-null (the booleans and the arrays).

  \<open>SiteSettingsColumns\<close> holds the 23 content columns, and \<open>SiteSettingsRow\<close> extends
  it with the audit members (\<^verbatim>\<open>id\<close> is \<open>row_id\<close> here). \<^verbatim>\<open>Partial<SiteSettingsRow>\<close>, as \<^verbatim>\<open>siteSettingsToRow\<close>
  builds it, has exactly the content columns and is a \<open>SiteSettingsColumns\<close>.
\<close>

record SiteSettingsColumns =
  logo_url :: "string option"
  logo_alt :: "string option"
  phone_number :: "string option"
  phone_display :: "string option"
  phone_availability :: "string option"
  apply_phone_globally :: "bool option"
  header_cta_text :: "string option"
  header_cta_url :: "string option"
  navigation_items :: "NavigationItem list option"
  footer_about_links :: "FooterLink list option"
  footer_practice_links :: "FooterLink list option"
  address_line1 :: "string option"
  address_line2 :: "string option"
  map_embed_url :: "string option"
  social_links :: "SocialLink list option"
  copyright_text :: "string option"
  site_noindex :: "bool option"
  ga4_measurement_id :: "string option"
  google_ads_id :: "string option"
  google_ads_conversion_label :: "string option"
  head_scripts :: "string option"
  footer_scripts :: "string option"
  site_name :: "string option"

record SiteSettingsRow = SiteSettingsColumns +
  row_id :: string
  settings_key :: string
  updated_at :: string
  updated_by :: "string option"

definition DEFAULT_SITE_SETTINGS :: SiteSettings where
  "DEFAULT_SITE_SETTINGS = \<lparr>
     siteName = ''Silva Trial Lawyers'',
     logoUrl = ''https://cdn.builder.io/api/v1/image/assets%2F50bd0f2438824f8ea1271cf7dd2c508e%2F76aac573949f43688ef9e04aa97e4711?format=webp&width=800&height=1200'',
     logoAlt = ''Silva Trial Lawyers'',
     phoneNumber = ''4049057742'',
     phoneDisplay = ''404-905-7742'',
     phoneAvailability = ''Available 24/7'',
     applyPhoneGlobally = True,
     headerCtaText = ''GET HELP NOW'',
     headerCtaUrl = ''#book'',
     navigationItems = [
       \<lparr>label = ''Home'', href = ''/'', order = Some 1, openInNewTab = None\<rparr>,
       \<lparr>label = ''About Us'', href = ''/about'', order = Some 2, openInNewTab = None\<rparr>,
       \<lparr>label = ''Practice Areas'', href = ''/practice-areas'', order = Some 3,
         openInNewTab = None\<rparr>,
       \<lparr>label = ''Contact Us'', href = ''/contact'', order = Some 4, openInNewTab = None\<rparr>],
     footerAboutLinks = [
       \<lparr>fl_label = ''About Us'', fl_href = Some ''/about''\<rparr>,
       \<lparr>fl_label = ''Contact'', fl_href = Some ''/contact''\<rparr>],
     footerPracticeLinks = [
       \<lparr>fl_label = ''Car Accidents'', fl_href = Some ''/practice-areas''\<rparr>,
       \<lparr>fl_label = ''Truck Accidents'', fl_href = Some ''/practice-areas''\<rparr>,
       \<lparr>fl_label = ''Motorcycle Accidents'', fl_href = Some ''/practice-areas''\<rparr>,
       \<lparr>fl_label = ''Premises Liability'', fl_href = Some ''/practice-areas''\<rparr>,
       \<lparr>fl_label = ''Workers Compensation'', fl_href = Some ''/practice-areas''\<rparr>,
       \<lparr>fl_label = ''Wrongful Death'', fl_href = Some ''/practice-areas''\<rparr>],
     addressLine1 = ''4120 Presidential Parkway, Suite 200'',
     addressLine2 = ''Atlanta, Georgia 30340'',
     mapEmbedUrl = ''https://www.google.com/maps/embed?pb=!1m18!1m12!1m3!1d3313.5!2d-84.2!3d33.9!2m3!1f0!2f0!3f0!3m2!1i1024!2i768!4f13.1!3m3!1m2!1s0x0%3A0x0!2s4120+Presidential+Pkwy%2C+Atlanta%2C+GA+30340!5e0!3m2!1sen!2sus'',
     socialLinks = [
       \<lparr>platform = facebook, url = ''https://facebook.com'', enabled = True\<rparr>,
       \<lparr>platform = instagram, url = ''https://instagram.com'', enabled = True\<rparr>],
     copyrightText = ''Copyright '' @ [CHR 0xC3, CHR 0x82, CHR 0xC2, CHR 0xA9]
       @ '' 2026 | Silva Trial Lawyers | All Rights Reserved'',
     siteNoindex = False,
     ga4MeasurementId = [],
     googleAdsId = [],
     googleAdsConversionLabel = [],
     headScripts = [],
     footerScripts = []\<rparr>"

section \<open>Row to settings and back\<close>

text \<open>
  The three JavaScript idioms of \<^verbatim>\<open>rowToSiteSettings\<close>, on a member that may be
  \<^verbatim>\<open>null\<close> or missing:
  \<^item> \<^verbatim>\<open>s || d\<close> on a string: \<open>d\<close> when \<open>s\<close> is null, missing or the empty string
    (the only falsy string);
  \<^item> \<^verbatim>\<open>b ?? d\<close>: \<open>d\<close> only when \<open>b\<close> is null or missing, so \<^verbatim>\<open>false\<close> is kept;
  \<^item> \<^verbatim>\<open>xs?.length ? xs : d\<close>: \<open>d\<close> when \<open>xs\<close> is null, missing or of length 0.
\<close>

definition or_else :: "string option \<Rightarrow> string \<Rightarrow> string" where
  "or_else s d = (case s of None \<Rightarrow> d | Some v \<Rightarrow> if v = [] then d else v)"

definition nullish :: "'a option \<Rightarrow> 'a \<Rightarrow> 'a" where
  "nullish b d = (case b of None \<Rightarrow> d | Some v \<Rightarrow> v)"

definition length_or :: "'a list option \<Rightarrow> 'a list \<Rightarrow> 'a list" where
  "length_or xs d = (case xs of None \<Rightarrow> d | Some v \<Rightarrow> if length v \<noteq> 0 then v else d)"

text \<open>\<^verbatim>\<open>s || null\<close> of \<^verbatim>\<open>siteSettingsToRow\<close>, on a string that is never null.\<close>

definition or_null :: "string \<Rightarrow> string option" where
  "or_null s = (if s = [] then None else Some s)"

definition rowToSiteSettings :: "'a SiteSettingsColumns_scheme \<Rightarrow> SiteSettings" where
  "rowToSiteSettings row = \<lparr>
     siteName = or_else (site_name row) (siteName DEFAULT_SITE_SETTINGS),
     logoUrl = or_else (logo_url row) (logoUrl DEFAULT_SITE_SETTINGS),
     logoAlt = or_else (logo_alt row) (logoAlt DEFAULT_SITE_SETTINGS),
     phoneNumber = or_else (phone_number row) (phoneNumber DEFAULT_SITE_SETTINGS),
     phoneDisplay = or_else (phone_display row) (phoneDisplay DEFAULT_SITE_SETTINGS),
     phoneAvailability =
       or_else (phone_availability row) (phoneAvailability DEFAULT_SITE_SETTINGS),
     applyPhoneGlobally =
       nullish (apply_phone_globally row) (applyPhoneGlobally DEFAULT_SITE_SETTINGS),
     headerCtaText = or_else (header_cta_text row) (headerCtaText DEFAULT_SITE_SETTINGS),
     headerCtaUrl = or_else (header_cta_url row) (headerCtaUrl DEFAULT_SITE_SETTINGS),
     navigationItems =
       length_or (navigation_items row) (navigationItems DEFAULT_SITE_SETTINGS),
     footerAboutLinks =
       length_or (footer_about_links row) (footerAboutLinks DEFAULT_SITE_SETTINGS),
     footerPracticeLinks =
       length_or (footer_practice_links row) (footerPracticeLinks DEFAULT_SITE_SETTINGS),
     addressLine1 = or_else (address_line1 row) (addressLine1 DEFAULT_SITE_SETTINGS),
     addressLine2 = or_else (address_line2 row) (addressLine2 DEFAULT_SITE_SETTINGS),
     mapEmbedUrl = or_else (map_embed_url row) (mapEmbedUrl DEFAULT_SITE_SETTINGS),
     socialLinks = length_or (social_links row) (socialLinks DEFAULT_SITE_SETTINGS),
     copyrightText = or_else (copyright_text row) (copyrightText DEFAULT_SITE_SETTINGS),
     siteNoindex = nullish (site_noindex row) (siteNoindex DEFAULT_SITE_SETTINGS),
     ga4MeasurementId = or_else (ga4_measurement_id row) [],
     googleAdsId = or_else (google_ads_id row) [],
     googleAdsConversionLabel = or_else (google_ads_conversion_label row) [],
     headScripts = or_else (head_scripts row) [],
     footerScripts = or_else (footer_scripts row) []\<rparr>"

definition siteSettingsToRow :: "SiteSettings \<Rightarrow> SiteSettingsColumns" where
  "siteSettingsToRow settings = \<lparr>
     logo_url = Some (logoUrl settings),
     logo_alt = Some (logoAlt settings),
     phone_number = Some (phoneNumber settings),
     phone_display = Some (phoneDisplay settings),
     phone_availability = Some (phoneAvailability settings),
     apply_phone_globally = Some (applyPhoneGlobally settings),
     header_cta_text = Some (headerCtaText settings),
     header_cta_url = Some (headerCtaUrl settings),
     navigation_items = Some (navigationItems settings),
     footer_about_links = Some (footerAboutLinks settings),
     footer_practice_links = Some (footerPracticeLinks settings),
     address_line1 = Some (addressLine1 settings),
     address_line2 = Some (addressLine2 settings),
     map_embed_url = Some (mapEmbedUrl settings),
     social_links = Some (socialLinks settings),
     copyright_text = Some (copyrightText settings),
     site_noindex = Some (siteNoindex settings),
     ga4_measurement_id = or_null (ga4MeasurementId settings),
     google_ads_id = or_null (googleAdsId settings),
     google_ads_conversion_label = or_null (googleAdsConversionLabel settings),
     head_scripts = or_null (headScripts settings),
     footer_scripts = or_null (footerScripts settings),
     site_name = Some (siteName settings)\<rparr>"

section \<open>The settings cache (src/client/hooks/useSiteSettings.ts)\<close>

subsection \<open>What the network gives back\<close>

text \<open>
  The hook reads the view \<^verbatim>\<open>site_settings_public\<close> with the key \<^verbatim>\<open>global\<close>; the URL and
  the two credential headers are constants and play no part below.

  A thrown value is an \<^verbatim>\<open>Error\<close> instance with its message, or something else
  (\<^verbatim>\<open>err instanceof Error\<close> tells them apart). \<^verbatim>\<open>fetch\<close> either rejects or gives a
  response with a status; \<^verbatim>\<open>response.ok\<close> is true for the statuses 200 to 299;
  \<^verbatim>\<open>response.json()\<close> either rejects (the body is not JSON text) or gives a value, of
  which the code asks \<^verbatim>\<open>Array.isArray\<close> and then casts the first element to
  \<^verbatim>\<open>SiteSettingsRow\<close>. The cast checks nothing, so an element of the array is one of:
  \<^item> \<^verbatim>\<open>null\<close>, on which the first member read of \<^verbatim>\<open>rowToSiteSettings\<close>,
    \<^verbatim>\<open>row.site_name\<close>, throws a \<^verbatim>\<open>TypeError\<close>;
  \<^item> an object, read as a row (a member it lacks is a missing column);
  \<^item> any other value (a number, a string, a boolean, an array), which has none of the
    members read: every column is missing.
\<close>

datatype error = Error string

datatype thrown = ThrownError error | ThrownOther

datatype json_element = NullElement | RowElement SiteSettingsRow | OtherElement

datatype json_data = JsonArray "json_element list" | JsonOther

datatype json_result = JsonThrows thrown | JsonValue json_data

record response =
  status :: nat
  json :: json_result

datatype fetch_outcome = FetchRejects thrown | FetchResponds response

definition ok :: "response \<Rightarrow> bool" where
  "ok r = (200 \<le> status r \<and> status r \<le> 299)"

function show_nat :: "nat \<Rightarrow> string" where
  "show_nat n =
     (if n < 10 then [char_of (48 + n)]
      else show_nat (n div 10) @ [char_of (48 + n mod 10)])"
  by pat_completeness auto
termination
  by (relation "measure (\<lambda>n. n)") auto

text \<open>
  The \<^verbatim>\<open>TypeError\<close> of reading a member of \<^verbatim>\<open>null\<close>, an \<^verbatim>\<open>Error\<close> instance. Its message
  is the engine's; this is the one of V8.
\<close>

definition null_row_error :: error where
  "null_row_error =
     Error (''Cannot read properties of null (reading '' @ [CHR 0x27] @ ''site_name''
            @ [CHR 0x27] @ '')'')"

text \<open>The columns of a value that has none of the members of a row.\<close>

definition no_columns :: SiteSettingsColumns where
  "no_columns = \<lparr>
     logo_url = None, logo_alt = None, phone_number = None, phone_display = None,
     phone_availability = None, apply_phone_globally = None, header_cta_text = None,
     header_cta_url = None, navigation_items = None, footer_about_links = None,
     footer_practice_links = None, address_line1 = None, address_line2 = None,
     map_embed_url = None, social_links = None, copyright_text = None,
     site_noindex = None, ga4_measurement_id = None, google_ads_id = None,
     google_ads_conversion_label = None, head_scripts = None, footer_scripts = None,
     site_name = None\<rparr>"

text \<open>
  The body of the async function whose promise is stored in \<^verbatim>\<open>fetchPromise\<close>
  (lines 61 to 86), as a function of what the network gives back: \<open>Inl\<close> is the value
  the promise rejects with, \<open>Inr\<close> the settings it fulfils with.
\<close>

definition fetch_job :: "fetch_outcome \<Rightarrow> thrown + SiteSettings" where
  "fetch_job outcome =
     (case outcome of
        FetchRejects t \<Rightarrow> Inl t
      | FetchResponds r \<Rightarrow>
          if \<not> ok r then Inl (ThrownError (Error (''HTTP error: '' @ show_nat (status r))))
          else (case json r of
                  JsonThrows t \<Rightarrow> Inl t
                | JsonValue data \<Rightarrow>
                    (case data of
                       JsonOther \<Rightarrow> Inr DEFAULT_SITE_SETTINGS
                     | JsonArray rows \<Rightarrow>
                         (case rows of
                            [] \<Rightarrow> Inr DEFAULT_SITE_SETTINGS
                          | NullElement # _ \<Rightarrow> Inl (ThrownError null_row_error)
                          | RowElement row # _ \<Rightarrow> Inr (rowToSiteSettings row)
                          | OtherElement # _ \<Rightarrow> Inr (rowToSiteSettings no_columns)))))"

subsection \<open>Module state, hook state and the event loop\<close>

text \<open>
  The module variables \<^verbatim>\<open>settingsCache\<close> and \<^verbatim>\<open>fetchPromise\<close>, the promises created so
  far (a promise is its index; a pending one holds the continuations awaiting it, in the
  order they were registered), the hook instances mounted so far (a hook is its index)
  and the number of calls of \<^verbatim>\<open>fetch\<close>. JavaScript runs one task at a time, so a task
  (a mount, an unmount, a call of \<^verbatim>\<open>clearSiteSettingsCache\<close>, the arrival of a response
  with the continuations it wakes) is one step of the state.

  Two pairs of tasks are taken as one step each. The async function awaits twice, for
  the response and for its body; it touches no module or hook state between the two, so
  anything that happens between them is the same as if it had happened before the
  response. And a hook's first render and its effect are one mount: no other task of this
  module is taken to come between them.
\<close>

record hook =
  settings :: SiteSettings
  isLoading :: bool
  error :: "error option"
  isMounted :: bool

datatype waiter = Initiator nat | Joiner nat

datatype promise = Pending "waiter list" | Fulfilled SiteSettings | RejectedWith thrown

record module_state =
  settingsCache :: "SiteSettings option"
  fetchPromise :: "nat option"
  promises :: "promise list"
  hooks :: "hook list"
  requests :: nat

definition initial :: module_state where
  "initial = \<lparr>settingsCache = None, fetchPromise = None, promises = [], hooks = [],
     requests = 0\<rparr>"

text \<open>State setters of hook \<open>h\<close>, run only under \<^verbatim>\<open>if (isMounted)\<close>.\<close>

definition if_mounted :: "nat \<Rightarrow> (hook \<Rightarrow> hook) \<Rightarrow> module_state \<Rightarrow> module_state" where
  "if_mounted h f s =
     (if h < length (hooks s) \<and> isMounted (hooks s ! h)
      then s\<lparr>hooks := (hooks s)[h := f (hooks s ! h)]\<rparr> else s)"

text \<open>\<^verbatim>\<open>err instanceof Error ? err : new Error("Unknown error")\<close>\<close>

definition as_error :: "thrown \<Rightarrow> error" where
  "as_error t = (case t of ThrownError e \<Rightarrow> e | ThrownOther \<Rightarrow> Error ''Unknown error'')"

text \<open>
  The code after \<^verbatim>\<open>await fetchPromise\<close>: lines 46 to 57 for a hook that joined a fetch
  in progress, lines 89 to 108 for the hook that started it.
\<close>

fun resume :: "thrown + SiteSettings \<Rightarrow> waiter \<Rightarrow> module_state \<Rightarrow> module_state" where
  "resume (Inr result) (Joiner h) s =
     if_mounted h (\<lambda>k. k\<lparr>settings := result, isLoading := False\<rparr>) s"
| "resume (Inl err) (Joiner h) s =
     if_mounted h (\<lambda>k. k\<lparr>error := Some (as_error err), isLoading := False\<rparr>) s"
| "resume (Inr result) (Initiator h) s =
     (let s1 = s\<lparr>settingsCache := Some result\<rparr>;
          s2 = if_mounted h (\<lambda>k. k\<lparr>settings := result, error := None\<rparr>) s1;
          s3 = s2\<lparr>fetchPromise := None\<rparr>
      in if_mounted h (\<lambda>k. k\<lparr>isLoading := False\<rparr>) s3)"
| "resume (Inl err) (Initiator h) s =
     (let s2 = if_mounted h
            (\<lambda>k. k\<lparr>error := Some (as_error err), settings := DEFAULT_SITE_SETTINGS\<rparr>) s;
          s3 = s2\<lparr>fetchPromise := None\<rparr>
      in if_mounted h (\<lambda>k. k\<lparr>isLoading := False\<rparr>) s3)"

text \<open>
  \<^verbatim>\<open>await p\<close>: the continuation is queued on a pending promise, and runs with the result
  of a settled one.
\<close>

definition await :: "nat \<Rightarrow> waiter \<Rightarrow> module_state \<Rightarrow> module_state" where
  "await p w s =
     (if p < length (promises s) then
        (case promises s ! p of
           Pending ws \<Rightarrow> s\<lparr>promises := (promises s)[p := Pending (ws @ [w])]\<rparr>
         | Fulfilled v \<Rightarrow> resume (Inr v) w s
         | RejectedWith t \<Rightarrow> resume (Inl t) w s)
      else s)"

text \<open>\<^verbatim>\<open>fetchSettings\<close> of hook \<open>h\<close>, up to its first \<^verbatim>\<open>await\<close> (lines 33 to 89).\<close>

definition fetchSettings :: "nat \<Rightarrow> module_state \<Rightarrow> module_state" where
  "fetchSettings h s =
     (case settingsCache s of
        Some cached \<Rightarrow> if_mounted h (\<lambda>k. k\<lparr>settings := cached, isLoading := False\<rparr>) s
      | None \<Rightarrow>
          (case fetchPromise s of
             Some p \<Rightarrow> await p (Joiner h) s
           | None \<Rightarrow>
               (let p = length (promises s);
                    s1 = s\<lparr>requests := requests s + 1,
                           promises := promises s @ [Pending []],
                           fetchPromise := Some p\<rparr>
                in await p (Initiator h) s1)))"

text \<open>
  Mounting a component that calls \<^verbatim>\<open>useSiteSettings\<close>: the three \<^verbatim>\<open>useState\<close>
  initialisers of the first render, then the effect, which calls \<^verbatim>\<open>fetchSettings\<close>.
\<close>

definition useSiteSettings :: "module_state \<Rightarrow> module_state" where
  "useSiteSettings s =
     (let h = length (hooks s);
          k = \<lparr>settings = (case settingsCache s of None \<Rightarrow> DEFAULT_SITE_SETTINGS | Some c \<Rightarrow> c),
               isLoading = (settingsCache s = None),
               error = None,
               isMounted = True\<rparr>
      in fetchSettings h (s\<lparr>hooks := hooks s @ [k]\<rparr>))"

text \<open>The cleanup of the effect (line 114).\<close>

definition cleanup :: "nat \<Rightarrow> module_state \<Rightarrow> module_state" where
  "cleanup h s =
     (if h < length (hooks s)
      then s\<lparr>hooks := (hooks s)[h := (hooks s ! h)\<lparr>isMounted := False\<rparr>]\<rparr> else s)"

definition clearSiteSettingsCache :: "module_state \<Rightarrow> module_state" where
  "clearSiteSettingsCache s = s\<lparr>settingsCache := None, fetchPromise := None\<rparr>"

text \<open>
  The network answers the request of promise \<open>p\<close>: the promise settles with the result of
  \<open>fetch_job\<close> and its continuations run in order. A request is answered once.
\<close>

definition settle :: "nat \<Rightarrow> fetch_outcome \<Rightarrow> module_state \<Rightarrow> module_state" where
  "settle p outcome s =
     (if p < length (promises s) then
        (case promises s ! p of
           Pending ws \<Rightarrow>
             (let r = fetch_job outcome;
                  s1 = s\<lparr>promises := (promises s)
                         [p := (case r of Inl t \<Rightarrow> RejectedWith t | Inr v \<Rightarrow> Fulfilled v)]\<rparr>
              in fold (resume r) ws s1)
         | _ \<Rightarrow> s)
      else s)"

datatype event = Mount | Unmount nat | Clear | Respond nat fetch_outcome

fun step :: "event \<Rightarrow> module_state \<Rightarrow> module_state" where
  "step Mount s = useSiteSettings s"
| "step (Unmount h) s = cleanup h s"
| "step Clear s = clearSiteSettingsCache s"
| "step (Respond p outcome) s = settle p outcome s"

definition run :: "event list \<Rightarrow> module_state \<Rightarrow> module_state" where
  "run evs s = fold step evs s"

section \<open>The page content editors (src/client/components/admin/PageContentEditor.tsx)\<close>

subsection \<open>Documents in a store\<close>

text \<open>
  A page document is a tree of JavaScript objects and arrays. The editors never assign to
  a document they are given: they build new objects with spread syntax and new arrays
  with \<^verbatim>\<open>[...items]\<close> and \<^verbatim>\<open>filter\<close>, and the only assignment in the file,
  \<^verbatim>\<open>newItems[index] = item\<close>, is to such a copy. To state that, objects and arrays
  live in a store: a reference is an index into it, an allocation appends a cell, an
  assignment replaces one.

  The document types (\<^verbatim>\<open>HomePageContent\<close> and the others) are imported from a file that
  is not part of the sources; the members the editors read are taken from the editors.
  The index of a cell has no meaning in JavaScript: the order of allocations below is the
  order in which the values are needed, and the array that \<^verbatim>\<open>split\<close> returns before
  \<^verbatim>\<open>filter\<close> copies it is not kept.
  Where a document does not have the shape its type promises (a section that is not an
  object, a list that is not an array), the functions below return \<open>None\<close>; what
  JavaScript does there is outside this model.
\<close>

datatype val = Str string | Num int | Bool bool | Null | Undefined | Ref nat

datatype cell = Object "(string \<times> val) list" | Array "val list"

type_synonym heap = "cell list"

definition alloc :: "heap \<Rightarrow> cell \<Rightarrow> heap \<times> val" where
  "alloc h c = (h @ [c], Ref (length h))"

definition fields :: "heap \<Rightarrow> val \<Rightarrow> (string \<times> val) list option" where
  "fields h v =
     (case v of
        Ref a \<Rightarrow> (if a < length h
                  then (case h ! a of Object fs \<Rightarrow> Some fs | Array xs \<Rightarrow> None) else None)
      | _ \<Rightarrow> None)"

definition elems :: "heap \<Rightarrow> val \<Rightarrow> val list option" where
  "elems h v =
     (case v of
        Ref a \<Rightarrow> (if a < length h
                  then (case h ! a of Array xs \<Rightarrow> Some xs | Object fs \<Rightarrow> None) else None)
      | _ \<Rightarrow> None)"

definition get :: "heap \<Rightarrow> val \<Rightarrow> string \<Rightarrow> val" where
  "get h v k =
     (case fields h v of
        Some fs \<Rightarrow> (case map_of fs k of Some x \<Rightarrow> x | None \<Rightarrow> Undefined)
      | None \<Rightarrow> Undefined)"

text \<open>\<^verbatim>\<open>{ ...obj, [k]: x }\<close>: a new object with the members of \<open>obj\<close> in their order,
  \<open>k\<close> replaced in place or added at the end.\<close>

definition spread_set :: "heap \<Rightarrow> val \<Rightarrow> string \<Rightarrow> val \<Rightarrow> (heap \<times> val) option" where
  "spread_set h obj k x =
     (case fields h obj of
        None \<Rightarrow> None
      | Some fs \<Rightarrow> Some (alloc h (Object (AList.update k x fs))))"

text \<open>
  The function \<^verbatim>\<open>update\<close> that each of the four editors defines (lines 132, 694, 994 and
  1223): \<^verbatim>\<open>onChange({ ...content, [key]: value })\<close>. The result is the store after the
  call and the documents \<^verbatim>\<open>onChange\<close> was called with, in order.
\<close>

definition update :: "heap \<Rightarrow> val \<Rightarrow> string \<Rightarrow> val \<Rightarrow> (heap \<times> val list) option" where
  "update h content key value =
     (case spread_set h content key value of
        None \<Rightarrow> None
      | Some (h', doc) \<Rightarrow> Some (h', [doc]))"

text \<open>\<^verbatim>\<open>xs[i] = x\<close> on an array: an index past the end extends the array.\<close>

definition set_index :: "val list \<Rightarrow> nat \<Rightarrow> val \<Rightarrow> val list" where
  "set_index xs i x =
     (if i < length xs then xs[i := x]
      else xs @ replicate (i - length xs) Undefined @ [x])"

definition assign_index :: "heap \<Rightarrow> val \<Rightarrow> nat \<Rightarrow> val \<Rightarrow> heap" where
  "assign_index h arr i x =
     (case arr of
        Ref a \<Rightarrow> (case elems h arr of Some xs \<Rightarrow> h[a := Array (set_index xs i x)] | None \<Rightarrow> h)
      | _ \<Rightarrow> h)"

text \<open>
  \<^verbatim>\<open>ArrayEditor\<close> (lines 60 to 89). Its \<^verbatim>\<open>onChange\<close> prop is a function of the store
  and the new array.
\<close>

definition addItem ::
  "heap \<Rightarrow> val \<Rightarrow> (heap \<Rightarrow> heap \<times> val) \<Rightarrow> (heap \<Rightarrow> val \<Rightarrow> (heap \<times> val list) option)
     \<Rightarrow> (heap \<times> val list) option" where
  "addItem h items newItem onChange =
     (case elems h items of
        None \<Rightarrow> None
      | Some xs \<Rightarrow>
          (let (h1, item) = newItem h;
               (h2, arr) = alloc h1 (Array (xs @ [item]))
           in onChange h2 arr))"

definition removeItem ::
  "heap \<Rightarrow> val \<Rightarrow> nat \<Rightarrow> (heap \<Rightarrow> val \<Rightarrow> (heap \<times> val list) option)
     \<Rightarrow> (heap \<times> val list) option" where
  "removeItem h items index onChange =
     (case elems h items of
        None \<Rightarrow> None
      | Some xs \<Rightarrow>
          (let (h1, arr) = alloc h (Array (map snd (filter (\<lambda>(i, _). i \<noteq> index)
                                                    (enumerate 0 xs))))
           in onChange h1 arr))"

definition updateItem ::
  "heap \<Rightarrow> val \<Rightarrow> nat \<Rightarrow> val \<Rightarrow> (heap \<Rightarrow> val \<Rightarrow> (heap \<times> val list) option)
     \<Rightarrow> (heap \<times> val list) option" where
  "updateItem h items index item onChange =
     (case elems h items of
        None \<Rightarrow> None
      | Some xs \<Rightarrow>
          (let (h1, newItems) = alloc h (Array xs);
               h2 = assign_index h1 newItems index item
           in onChange h2 newItems))"

text \<open>
  \<^verbatim>\<open>s.split(sep)\<close> for a non-empty separator, and \<^verbatim>\<open>.filter(Boolean)\<close>, which drops
  the empty pieces. The editors split at a line break and at a blank line.
\<close>

function split_from :: "string \<Rightarrow> string \<Rightarrow> string \<Rightarrow> string list" where
  "split_from sep acc s =
     (if s = [] then [rev acc]
      else if sep \<noteq> [] \<and> take (length sep) s = sep
        then rev acc # split_from sep [] (drop (length sep) s)
      else split_from sep (hd s # acc) (tl s))"
  by pat_completeness auto
termination
  by (relation "measure (\<lambda>(sep, acc, s). length s)") auto

definition split :: "string \<Rightarrow> string \<Rightarrow> string list" where
  "split sep s = split_from sep [] s"

definition split_filter :: "string \<Rightarrow> string \<Rightarrow> string list" where
  "split_filter sep s = filter (\<lambda>piece. piece \<noteq> []) (split sep s)"

definition line_break :: string where
  "line_break = [CHR 0x0A]"

definition blank_line :: string where
  "blank_line = [CHR 0x0A, CHR 0x0A]"

subsection \<open>The inputs of the editors\<close>

text \<open>
  Every input of the four editors has one of five change handlers, where \<open>v\<close> is
  \<^verbatim>\<open>e.target.value\<close>:
  \<^item> \<open>SectionText sec fld\<close>: \<^verbatim>\<open>update(sec, { ...content[sec], [fld]: v })\<close>;
  \<^item> \<open>SectionLines sec fld sep\<close>:
    \<^verbatim>\<open>update(sec, { ...content[sec], [fld]: v.split(sep).filter(Boolean) })\<close>;
  \<^item> \<open>TopText fld\<close>: \<^verbatim>\<open>onChange({ ...content, [fld]: v })\<close>;
  \<^item> \<open>ItemText key i fld\<close>, in row \<open>i\<close> of an \<^verbatim>\<open>ArrayEditor\<close> with
    \<^verbatim>\<open>items={content[key]}\<close> and \<^verbatim>\<open>onChange={(items) => update(key, items)}\<close>:
    \<^verbatim>\<open>updateItem({ ...item, [fld]: v })\<close>;
  \<^item> \<open>NestedItemText sec arr i fld\<close>, the same in an \<^verbatim>\<open>ArrayEditor\<close> with
    \<^verbatim>\<open>items={content[sec][arr]}\<close> and
    \<^verbatim>\<open>onChange={(items) => update(sec, { ...content[sec], [arr]: items })}\<close>.
\<close>

datatype control =
    SectionText string string
  | SectionLines string string string
  | TopText string
  | ItemText string nat string
  | NestedItemText string string nat string

text \<open>The item of row \<open>i\<close>, as \<^verbatim>\<open>items.map\<close> hands it to \<^verbatim>\<open>renderItem\<close>.\<close>

definition item_at :: "heap \<Rightarrow> val \<Rightarrow> nat \<Rightarrow> val option" where
  "item_at h items i =
     (case elems h items of
        None \<Rightarrow> None
      | Some xs \<Rightarrow> if i < length xs then Some (xs ! i) else None)"

fun handle :: "heap \<Rightarrow> val \<Rightarrow> control \<Rightarrow> string \<Rightarrow> (heap \<times> val list) option" where
  "handle h content (SectionText sec fld) v =
     (case spread_set h (get h content sec) fld (Str v) of
        None \<Rightarrow> None
      | Some (h1, section) \<Rightarrow> update h1 content sec section)"
| "handle h content (SectionLines sec fld sep) v =
     (let (h1, pieces) = alloc h (Array (map Str (split_filter sep v)))
      in case spread_set h1 (get h content sec) fld pieces of
           None \<Rightarrow> None
         | Some (h2, section) \<Rightarrow> update h2 content sec section)"
| "handle h content (TopText fld) v = update h content fld (Str v)"
| "handle h content (ItemText key i fld) v =
     (case item_at h (get h content key) i of
        None \<Rightarrow> None
      | Some item \<Rightarrow>
          (case spread_set h item fld (Str v) of
             None \<Rightarrow> None
           | Some (h1, updated) \<Rightarrow>
               updateItem h1 (get h content key) i updated
                 (\<lambda>h2 items. update h2 content key items)))"
| "handle h content (NestedItemText sec arr i fld) v =
     (case item_at h (get h (get h content sec) arr) i of
        None \<Rightarrow> None
      | Some item \<Rightarrow>
          (case spread_set h item fld (Str v) of
             None \<Rightarrow> None
           | Some (h1, updated) \<Rightarrow>
               updateItem h1 (get h (get h content sec) arr) i updated
                 (\<lambda>h2 items.
                    case spread_set h2 (get h content sec) arr items of
                      None \<Rightarrow> None
                    | Some (h3, section) \<Rightarrow> update h3 content sec section)))"

text \<open>The inputs of each editor, by the line of their \<^verbatim>\<open>onChange\<close>.\<close>

definition HomePageEditor :: "control \<Rightarrow> bool" where
  "HomePageEditor c =
     (case c of
        SectionText sec fld \<Rightarrow>
          (sec, fld) \<in> set [
            (''hero'', ''title''), (''hero'', ''subtitle''), (''hero'', ''backgroundImage''),
            (''hero'', ''ctaText''), (''hero'', ''ctaUrl''), (''hero'', ''attorneyImage''),
            (''hero'', ''badgeImage''),
            (''mission'', ''heading''), (''mission'', ''image''),
            (''mission'', ''ctaPrimaryText''), (''mission'', ''ctaPrimaryUrl''),
            (''mission'', ''ctaSecondaryText''), (''mission'', ''ctaSecondaryUrl''),
            (''attorney'', ''name''), (''attorney'', ''title''), (''attorney'', ''photo''),
            (''attorney'', ''bio''), (''attorney'', ''phone''),
            (''speakWithUs'', ''heading''), (''speakWithUs'', ''description''),
            (''speakWithUs'', ''image''), (''speakWithUs'', ''ctaText''),
            (''speakWithUs'', ''ctaUrl''),
            (''clientStories'', ''heading''), (''clientStories'', ''subtitle''),
            (''contactForm'', ''heading''), (''contactForm'', ''image''),
            (''contactForm'', ''badgeImage''),
            (''services'', ''heading''), (''services'', ''description''),
            (''services'', ''closingText'')]
      | SectionLines sec fld sep \<Rightarrow>
          (sec, fld, sep) \<in> set [
            (''mission'', ''paragraphs'', blank_line), (''attorney'', ''bullets'', line_break)]
      | TopText fld \<Rightarrow> False
      | ItemText key i fld \<Rightarrow>
          (key, fld) \<in> set [
            (''features'', ''icon''), (''features'', ''title''), (''features'', ''description'')]
      | NestedItemText sec arr i fld \<Rightarrow>
          (sec, arr, fld) \<in> set [
            (''clientStories'', ''videos'', ''embedUrl''),
            (''clientStories'', ''videos'', ''thumbnail''),
            (''services'', ''items'', ''title''), (''services'', ''items'', ''icon'')])"

definition AboutPageEditor :: "control \<Rightarrow> bool" where
  "AboutPageEditor c =
     (case c of
        SectionText sec fld \<Rightarrow>
          (sec, fld) \<in> set [
            (''hero'', ''title''), (''hero'', ''backgroundImage''),
            (''story'', ''image''), (''story'', ''ctaPrimaryText''),
            (''story'', ''ctaPrimaryUrl''),
            (''attorney'', ''name''), (''attorney'', ''title''), (''attorney'', ''photo''),
            (''attorney'', ''phone''),
            (''cta'', ''heading''), (''cta'', ''description''), (''cta'', ''phone'')]
      | SectionLines sec fld sep \<Rightarrow>
          (sec, fld, sep) \<in> set [
            (''story'', ''paragraphs'', blank_line), (''attorney'', ''bio'', blank_line)]
      | TopText fld \<Rightarrow> False
      | ItemText key i fld \<Rightarrow>
          (key, fld) \<in> set [
            (''approach'', ''icon''), (''approach'', ''title''), (''approach'', ''description''),
            (''testimonials'', ''quote''), (''testimonials'', ''name''),
            (''testimonials'', ''initials''), (''testimonials'', ''caseType'')]
      | NestedItemText sec arr i fld \<Rightarrow> False)"

definition ContactPageEditor :: "control \<Rightarrow> bool" where
  "ContactPageEditor c =
     (case c of
        SectionText sec fld \<Rightarrow>
          (sec, fld) \<in> set [
            (''hero'', ''title''), (''hero'', ''subtitle''), (''hero'', ''backgroundImage''),
            (''info'', ''phone''), (''info'', ''phoneNote''), (''info'', ''addressLabel''),
            (''form'', ''heading''), (''form'', ''image''), (''form'', ''badgeImage''),
            (''cta'', ''heading''), (''cta'', ''description''), (''cta'', ''phone'')]
      | SectionLines sec fld sep \<Rightarrow> (sec, fld, sep) = (''info'', ''address'', line_break)
      | TopText fld \<Rightarrow> fld \<in> set [''hoursNote'', ''mapEmbedUrl'']
      | ItemText key i fld \<Rightarrow>
          (key, fld) \<in> set [(''officeHours'', ''label''), (''officeHours'', ''hours'')]
      | NestedItemText sec arr i fld \<Rightarrow> False)"

definition PracticeAreasPageEditor :: "control \<Rightarrow> bool" where
  "PracticeAreasPageEditor c =
     (case c of
        SectionText sec fld \<Rightarrow>
          (sec, fld) \<in> set [
            (''hero'', ''title''), (''hero'', ''backgroundImage''),
            (''options'', ''heading''), (''options'', ''text''), (''options'', ''image''),
            (''options'', ''ctaPrimaryText''), (''options'', ''ctaPrimaryUrl''),
            (''cta'', ''heading''), (''cta'', ''description''), (''cta'', ''phone'')]
      | SectionLines sec fld sep \<Rightarrow> False
      | TopText fld \<Rightarrow> fld = ''intro''
      | ItemText key i fld \<Rightarrow>
          (key, fld) \<in> set [(''areas'', ''name''), (''areas'', ''icon''), (''areas'', ''description'')]
      | NestedItemText sec arr i fld \<Rightarrow> False)"

subsection \<open>The dispatch and the fallback editor\<close>

datatype editor = HomePage | AboutPage | ContactPage | PracticeAreasPage | Fallback

text \<open>\<^verbatim>\<open>PageContentEditor\<close> (lines 1412 to 1472) chooses the editor by the page key.\<close>

definition PageContentEditor :: "string \<Rightarrow> editor" where
  "PageContentEditor pageKey =
     (let urlPath = pageKey in
      if urlPath = ''/'' \<or> urlPath = ''/home'' then HomePage
      else if urlPath = ''/about'' then AboutPage
      else if urlPath = ''/contact'' then ContactPage
      else if urlPath = ''/practice-areas'' then PracticeAreasPage
      else Fallback)"

fun inputs :: "editor \<Rightarrow> control \<Rightarrow> bool" where
  "inputs HomePage c = HomePageEditor c"
| "inputs AboutPage c = AboutPageEditor c"
| "inputs ContactPage c = ContactPageEditor c"
| "inputs PracticeAreasPage c = PracticeAreasPageEditor c"
| "inputs Fallback c = False"

text \<open>
  What the render function of each editor reads of the document without a guard. It
  reads a member of every section (\<^verbatim>\<open>value={content.hero.title}\<close>), so a section must
  not be missing; it calls \<^verbatim>\<open>join\<close> on the lists behind a text area and hands the item
  lists to \<^verbatim>\<open>ArrayEditor\<close>, which calls \<^verbatim>\<open>map\<close> on them and reads members of every item.
  Where one of these is missing the render throws, no input is shown and no handler
  exists. Members read at the top of the document or of a section may be missing. The
  fallback editor reads nothing: it hands the document to \<^verbatim>\<open>JSON.stringify\<close>.
\<close>

definition is_object :: "heap \<Rightarrow> val \<Rightarrow> bool" where
  "is_object h v = (fields h v \<noteq> None)"

definition is_array :: "heap \<Rightarrow> val \<Rightarrow> bool" where
  "is_array h v = (elems h v \<noteq> None)"

definition is_rows :: "heap \<Rightarrow> val \<Rightarrow> bool" where
  "is_rows h v = (case elems h v of None \<Rightarrow> False | Some xs \<Rightarrow> list_all (is_object h) xs)"

fun renders :: "editor \<Rightarrow> heap \<Rightarrow> val \<Rightarrow> bool" where
  "renders HomePage h content =
     (is_object h content \<and>
      list_all (\<lambda>sec. is_object h (get h content sec))
        [''hero'', ''mission'', ''attorney'', ''speakWithUs'', ''clientStories'',
         ''contactForm'', ''services''] \<and>
      is_rows h (get h content ''features'') \<and>
      is_array h (get h (get h content ''mission'') ''paragraphs'') \<and>
      is_array h (get h (get h content ''attorney'') ''bullets'') \<and>
      is_rows h (get h (get h content ''clientStories'') ''videos'') \<and>
      is_rows h (get h (get h content ''services'') ''items''))"
| "renders AboutPage h content =
     (is_object h content \<and>
      list_all (\<lambda>sec. is_object h (get h content sec))
        [''hero'', ''story'', ''attorney'', ''cta''] \<and>
      is_array h (get h (get h content ''story'') ''paragraphs'') \<and>
      is_array h (get h (get h content ''attorney'') ''bio'') \<and>
      is_rows h (get h content ''approach'') \<and>
      is_rows h (get h content ''testimonials''))"
| "renders ContactPage h content =
     (is_object h content \<and>
      list_all (\<lambda>sec. is_object h (get h content sec))
        [''hero'', ''info'', ''form'', ''cta''] \<and>
      is_array h (get h (get h content ''info'') ''address'') \<and>
      is_rows h (get h content ''officeHours''))"
| "renders PracticeAreasPage h content =
     (is_object h content \<and>
      list_all (\<lambda>sec. is_object h (get h content sec))
        [''hero'', ''options'', ''cta''] \<and>
      is_rows h (get h content ''areas''))"
| "renders Fallback h content = True"

text \<open>
  The change handler of the fallback editor's text area (lines 1461 to 1467):
  \<^verbatim>\<open>try { onChange(JSON.parse(e.target.value)) } catch { }\<close>. \<^verbatim>\<open>JSON.parse\<close> is the
  language's; it is the parameter \<open>parse\<close>, \<open>None\<close> where it throws a syntax error. The
  result is the list of documents \<^verbatim>\<open>onChange\<close> was called with.
\<close>

definition fallback_handler :: "(string \<Rightarrow> 'doc option) \<Rightarrow> string \<Rightarrow> 'doc list" where
  "fallback_handler parse text = (case parse text of None \<Rightarrow> [] | Some doc \<Rightarrow> [doc])"

section \<open>Scenarios and observations used in the statements\<close>

text \<open>
  The state of a hook right after it mounts while nothing is cached, and what each kind of
  continuation makes of a hook's state.
\<close>

definition fresh_hook :: hook where
  "fresh_hook = \<lparr>settings = DEFAULT_SITE_SETTINGS, isLoading = True, error = None,
     isMounted = True\<rparr>"

definition joined :: "thrown + SiteSettings \<Rightarrow> hook \<Rightarrow> hook" where
  "joined r k = (case r of Inr v \<Rightarrow> k\<lparr>settings := v, isLoading := False\<rparr>
                 | Inl t \<Rightarrow> k\<lparr>error := Some (as_error t), isLoading := False\<rparr>)"

definition started :: "thrown + SiteSettings \<Rightarrow> hook \<Rightarrow> hook" where
  "started r k = (case r of Inr v \<Rightarrow> k\<lparr>settings := v, error := None, isLoading := False\<rparr>
                 | Inl t \<Rightarrow> k\<lparr>error := Some (as_error t), settings := DEFAULT_SITE_SETTINGS,
                            isLoading := False\<rparr>)"

text \<open>
  The state in which a hook that mounted while nothing was cached ends when the fetch it
  started or joined settles with \<open>r\<close>.
\<close>

definition resolved_hook :: "thrown + SiteSettings \<Rightarrow> hook" where
  "resolved_hook r =
     (case r of
        Inr v \<Rightarrow> \<lparr>settings = v, isLoading = False, error = None, isMounted = True\<rparr>
      | Inl t \<Rightarrow> \<lparr>settings = DEFAULT_SITE_SETTINGS, isLoading = False,
                  error = Some (as_error t), isMounted = True\<rparr>)"

text \<open>
  Promise \<open>p\<close> is pending and the continuation of the hook \<open>h\<close> that started its fetch
  is queued on it.
\<close>

definition in_flight :: "nat \<Rightarrow> nat \<Rightarrow> module_state \<Rightarrow> bool" where
  "in_flight p h s \<longleftrightarrow>
     p < length (promises s) \<and>
     (case promises s ! p of Pending ws \<Rightarrow> Initiator h \<in> set ws | _ \<Rightarrow> False)"

text \<open>Some answers of the network.\<close>

definition zero_rows :: fetch_outcome where
  "zero_rows = FetchResponds \<lparr>status = 200, json = JsonValue (JsonArray [])\<rparr>"

definition not_an_array :: fetch_outcome where
  "not_an_array = FetchResponds \<lparr>status = 200, json = JsonValue JsonOther\<rparr>"

definition bad_json :: fetch_outcome where
  "bad_json = FetchResponds \<lparr>status = 200,
     json = JsonThrows (ThrownError (Error ''Unexpected token < in JSON at position 0''))\<rparr>"

definition server_error :: fetch_outcome where
  "server_error = FetchResponds \<lparr>status = 500, json = JsonValue JsonOther\<rparr>"


text \<open>
  The hypothesis of the round trip as the specification words it: no column is null, and
  no sequence is empty.
\<close>

definition all_fields_populated :: "'a SiteSettingsColumns_scheme \<Rightarrow> bool" where
  "all_fields_populated row \<longleftrightarrow>
     logo_url row \<noteq> None \<and> logo_alt row \<noteq> None \<and> phone_number row \<noteq> None \<and>
     phone_display row \<noteq> None \<and> phone_availability row \<noteq> None \<and>
     apply_phone_globally row \<noteq> None \<and> header_cta_text row \<noteq> None \<and>
     header_cta_url row \<noteq> None \<and> address_line1 row \<noteq> None \<and>
     address_line2 row \<noteq> None \<and> map_embed_url row \<noteq> None \<and>
     copyright_text row \<noteq> None \<and> site_noindex row \<noteq> None \<and>
     ga4_measurement_id row \<noteq> None \<and> google_ads_id row \<noteq> None \<and>
     google_ads_conversion_label row \<noteq> None \<and> head_scripts row \<noteq> None \<and>
     footer_scripts row \<noteq> None \<and> site_name row \<noteq> None \<and>
     navigation_items row \<notin> {None, Some []} \<and>
     footer_about_links row \<notin> {None, Some []} \<and>
     footer_practice_links row \<notin> {None, Some []} \<and>
     social_links row \<notin> {None, Some []}"

text \<open>No text column is the empty string.\<close>

definition text_fields_nonempty :: "'a SiteSettingsColumns_scheme \<Rightarrow> bool" where
  "text_fields_nonempty row \<longleftrightarrow>
     logo_url row \<noteq> Some [] \<and> logo_alt row \<noteq> Some [] \<and> phone_number row \<noteq> Some [] \<and>
     phone_display row \<noteq> Some [] \<and> phone_availability row \<noteq> Some [] \<and>
     header_cta_text row \<noteq> Some [] \<and>
     header_cta_url row \<noteq> Some [] \<and> address_line1 row \<noteq> Some [] \<and>
     address_line2 row \<noteq> Some [] \<and> map_embed_url row \<noteq> Some [] \<and>
     copyright_text row \<noteq> Some [] \<and>
     ga4_measurement_id row \<noteq> Some [] \<and> google_ads_id row \<noteq> Some [] \<and>
     google_ads_conversion_label row \<noteq> Some [] \<and> head_scripts row \<noteq> Some [] \<and>
     footer_scripts row \<noteq> Some [] \<and> site_name row \<noteq> Some []"

text \<open>A row with every column populated, the same row with an empty logo URL, and the
  default settings with an empty logo URL.\<close>

definition example_row :: SiteSettingsRow where
  "example_row = \<lparr>
     logo_url = Some ''/logo.png'',
     logo_alt = Some ''Logo'',
     phone_number = Some ''5550100'',
     phone_display = Some ''555-0100'',
     phone_availability = Some ''Weekdays'',
     apply_phone_globally = Some False,
     header_cta_text = Some ''Call'',
     header_cta_url = Some ''/call'',
     navigation_items = Some [\<lparr>label = ''Start'', href = ''/'', order = None,
       openInNewTab = Some True\<rparr>],
     footer_about_links = Some [\<lparr>fl_label = ''Team'', fl_href = None\<rparr>],
     footer_practice_links = Some [\<lparr>fl_label = ''Appeals'', fl_href = Some ''/appeals''\<rparr>],
     address_line1 = Some ''1 Main Street'',
     address_line2 = Some ''Springfield'',
     map_embed_url = Some ''https://maps.example/embed'',
     social_links = Some [\<lparr>platform = youtube, url = ''https://youtube.com'', enabled = False\<rparr>],
     copyright_text = Some ''All rights reserved'',
     site_noindex = Some True,
     ga4_measurement_id = Some ''G-1'',
     google_ads_id = Some ''AW-1'',
     google_ads_conversion_label = Some ''abc'',
     head_scripts = Some ''<script></script>'',
     footer_scripts = Some ''<!-- -->'',
     site_name = Some ''Example Firm'',
     row_id = ''1'',
     settings_key = ''global'',
     updated_at = ''2026-01-01T00:00:00Z'',
     updated_by = None\<rparr>"

definition blank_logo_row :: SiteSettingsRow where
  "blank_logo_row = example_row\<lparr>logo_url := Some []\<rparr>"

definition blank_logo_settings :: SiteSettings where
  "blank_logo_settings = DEFAULT_SITE_SETTINGS\<lparr>logoUrl := []\<rparr>"

section \<open>Observations of documents used in the statements\<close>

text \<open>
  The document the owner of an editor holds after the calls of \<^verbatim>\<open>onChange\<close>, when it
  keeps the document each call hands it (the contract of the prop).
\<close>

definition held :: "'doc \<Rightarrow> 'doc list \<Rightarrow> 'doc" where
  "held content calls = (case calls of [] \<Rightarrow> content | _ \<Rightarrow> last calls)"

text \<open>A toy parser for the examples: it knows one text.\<close>

definition parse_empty_object :: "string \<Rightarrow> nat option" where
  "parse_empty_object text = (if text = ''{}'' then Some 0 else None)"

text \<open>
  Reading a document: a path of member names and array indices from a value, and the
  value found there (\<^verbatim>\<open>undefined\<close> where the path leaves the document).
\<close>

datatype seg = Key string | Idx nat

fun at :: "heap \<Rightarrow> val \<Rightarrow> seg list \<Rightarrow> val" where
  "at h v [] = v"
| "at h v (Key k # p) = at h (get h v k) p"
| "at h v (Idx i # p) = at h (case item_at h v i of Some x \<Rightarrow> x | None \<Rightarrow> Undefined) p"

text \<open>The path of the member an input edits.\<close>

fun path :: "control \<Rightarrow> seg list" where
  "path (SectionText sec fld) = [Key sec, Key fld]"
| "path (SectionLines sec fld sep) = [Key sec, Key fld]"
| "path (TopText fld) = [Key fld]"
| "path (ItemText key i fld) = [Key key, Idx i, Key fld]"
| "path (NestedItemText sec arr i fld) = [Key sec, Key arr, Idx i, Key fld]"

text \<open>
  What an input writes for the text \<open>v\<close>: the text itself, or for a text area that edits
  a list, an array of the non-empty pieces of the text.
\<close>

fun entered :: "heap \<Rightarrow> val \<Rightarrow> control \<Rightarrow> string \<Rightarrow> bool" where
  "entered h x (SectionLines sec fld sep) v = (elems h x = Some (map Str (split_filter sep v)))"
| "entered h x c v = (x = Str v)"

text \<open>A store without dangling references.\<close>

definition valid :: "heap \<Rightarrow> val \<Rightarrow> bool" where
  "valid h v = (case v of Ref a \<Rightarrow> a < length h | _ \<Rightarrow> True)"

definition cell_vals :: "cell \<Rightarrow> val list" where
  "cell_vals c = (case c of Object fs \<Rightarrow> map snd fs | Array xs \<Rightarrow> xs)"

definition closed :: "heap \<Rightarrow> bool" where
  "closed h = list_all (\<lambda>c. list_all (valid h) (cell_vals c)) h"

text \<open>
  The containers on a path exist and are of the kind the editors read them as: an object
  where a member is read, an array with a row \<open>i\<close> where an item is read. This is what
  the document types promise of the path of an input.
\<close>

fun walkable :: "heap \<Rightarrow> val \<Rightarrow> seg list \<Rightarrow> bool" where
  "walkable h v [] = True"
| "walkable h v (Key k # p) = (fields h v \<noteq> None \<and> walkable h (get h v k) p)"
| "walkable h v (Idx i # p) =
     (case item_at h v i of None \<Rightarrow> False | Some x \<Rightarrow> walkable h x p)"

text \<open>
  Writing \<open>x\<close> at a path by copying every container on the way, innermost first: what
  the handlers do, in one function.
\<close>

fun cow :: "heap \<Rightarrow> val \<Rightarrow> seg list \<Rightarrow> val \<Rightarrow> (heap \<times> val) option" where
  "cow h v [] x = Some (h, x)"
| "cow h v (Key k # p) x =
     (case cow h (get h v k) p x of
        None \<Rightarrow> None
      | Some (h1, child) \<Rightarrow> spread_set h1 v k child)"
| "cow h v (Idx i # p) x =
     (case item_at h v i of
        None \<Rightarrow> None
      | Some item \<Rightarrow>
          (case cow h item p x of
             None \<Rightarrow> None
           | Some (h1, child) \<Rightarrow>
               (case elems h1 v of
                  None \<Rightarrow> None
                | Some xs \<Rightarrow>
                    (let (h2, newItems) = alloc h1 (Array xs)
                     in Some (assign_index h2 newItems i child, newItems)))))"

text \<open>
  A home page document with every section the home page editor reads: two features, a
  mission with two paragraphs, an attorney with one bullet, one client video and one
  service.
\<close>

definition home_store :: heap where
  "home_store = [
     Object [(''hero'', Ref 1), (''features'', Ref 2), (''mission'', Ref 5),
             (''attorney'', Ref 7), (''speakWithUs'', Ref 9), (''clientStories'', Ref 10),
             (''contactForm'', Ref 13), (''services'', Ref 14)],
     Object [(''title'', Str ''Trial lawyers''), (''subtitle'', Str ''Since 1990'')],
     Array [Ref 3, Ref 4],
     Object [(''icon'', Str ''attorney''), (''title'', Str ''Experience''),
             (''description'', Str ''Thirty years'')],
     Object [(''icon'', Str ''trial-driven''), (''title'', Str ''Results''),
             (''description'', Str ''We go to trial'')],
     Object [(''heading'', Str ''Our mission''), (''paragraphs'', Ref 6)],
     Array [Str ''First.'', Str ''Second.''],
     Object [(''name'', Str ''A. Silva''), (''bio'', Str ''Bio''), (''bullets'', Ref 8)],
     Array [Str ''Licensed in Georgia''],
     Object [(''heading'', Str ''Speak with us'')],
     Object [(''heading'', Str ''Client stories''), (''videos'', Ref 11)],
     Array [Ref 12],
     Object [(''embedUrl'', Str ''https://www.youtube.com/embed/x''),
             (''thumbnail'', Str ''/x.jpg'')],
     Object [(''heading'', Str ''Contact us'')],
     Object [(''heading'', Str ''Services''), (''items'', Ref 15)],
     Array [Ref 16],
     Object [(''title'', Str ''Car accidents''), (''icon'', Str ''CarFront'')]]"

text \<open>
  The store and the value an input writes for the text \<open>v\<close>: a list input allocates its
  array before anything else.
\<close>

fun leaf :: "heap \<Rightarrow> control \<Rightarrow> string \<Rightarrow> heap \<times> val" where
  "leaf h (SectionLines sec fld sep) v = alloc h (Array (map Str (split_filter sep v)))"
| "leaf h c v = (h, Str v)"

text \<open>Two inputs of the home page editor.\<close>

definition paragraphs_input :: control where
  "paragraphs_input = SectionLines ''mission'' ''paragraphs'' blank_line"

definition feature_title_input :: control where
  "feature_title_input = ItemText ''features'' 1 ''title''"

section \<open>Lemmas about the mapping\<close>

lemma or_else_Some: "s \<noteq> None \<Longrightarrow> s \<noteq> Some [] \<Longrightarrow> Some (or_else s d) = s"
  by (cases s) (auto simp: or_else_def)

lemma or_null_or_else: "s \<noteq> None \<Longrightarrow> s \<noteq> Some [] \<Longrightarrow> or_null (or_else s d) = s"
  by (cases s) (auto simp: or_else_def or_null_def)

lemma nullish_Some: "b \<noteq> None \<Longrightarrow> Some (nullish b d) = b"
  by (cases b) (auto simp: nullish_def)

lemma length_or_Some: "xs \<notin> {None, Some []} \<Longrightarrow> Some (length_or xs d) = xs"
  by (cases xs) (auto simp: length_or_def)

lemma length_or_nonempty: "d \<noteq> [] \<Longrightarrow> length_or xs d \<noteq> []"
  by (cases xs) (auto simp: length_or_def)

lemma length_or_default: "xs \<in> {None, Some []} \<Longrightarrow> length_or xs d = d"
  by (auto simp: length_or_def)

lemma default_lists_nonempty:
  "navigationItems DEFAULT_SITE_SETTINGS \<noteq> []"
  "footerAboutLinks DEFAULT_SITE_SETTINGS \<noteq> []"
  "footerPracticeLinks DEFAULT_SITE_SETTINGS \<noteq> []"
  "socialLinks DEFAULT_SITE_SETTINGS \<noteq> []"
  by (simp_all add: DEFAULT_SITE_SETTINGS_def)

lemma rowToSiteSettings_lists:
  "navigationItems (rowToSiteSettings row)
     = length_or (navigation_items row) (navigationItems DEFAULT_SITE_SETTINGS)"
  "footerAboutLinks (rowToSiteSettings row)
     = length_or (footer_about_links row) (footerAboutLinks DEFAULT_SITE_SETTINGS)"
  "footerPracticeLinks (rowToSiteSettings row)
     = length_or (footer_practice_links row) (footerPracticeLinks DEFAULT_SITE_SETTINGS)"
  "socialLinks (rowToSiteSettings row)
     = length_or (social_links row) (socialLinks DEFAULT_SITE_SETTINGS)"
  by (simp_all add: rowToSiteSettings_def)

lemma example_row_populated:
  "all_fields_populated example_row" "text_fields_nonempty example_row"
  by (simp_all add: all_fields_populated_def text_fields_nonempty_def example_row_def)

section \<open>Lemmas about the cache\<close>

subsection \<open>What a continuation leaves untouched\<close>

lemma if_mounted_frame [simp]:
  "settingsCache (if_mounted h f s) = settingsCache s"
  "fetchPromise (if_mounted h f s) = fetchPromise s"
  "promises (if_mounted h f s) = promises s"
  "requests (if_mounted h f s) = requests s"
  "length (hooks (if_mounted h f s)) = length (hooks s)"
  by (simp_all add: if_mounted_def)

lemma resume_frame [simp]:
  "promises (resume r w s) = promises s"
  "requests (resume r w s) = requests s"
  "length (hooks (resume r w s)) = length (hooks s)"
  by (cases r; cases w; simp add: Let_def)+

lemma resume_Joiner_frame [simp]:
  "settingsCache (resume r (Joiner h) s) = settingsCache s"
  "fetchPromise (resume r (Joiner h) s) = fetchPromise s"
  by (cases r; simp)+

lemma resume_Initiator_cache [simp]:
  "settingsCache (resume (Inr v) (Initiator h) s) = Some v"
  "settingsCache (resume (Inl t) (Initiator h) s) = settingsCache s"
  "fetchPromise (resume r (Initiator h) s) = None"
  by (cases r; simp add: Let_def)+

lemma fold_resume_frame [simp]:
  "promises (fold (resume r) ws s) = promises s"
  "requests (fold (resume r) ws s) = requests s"
  "length (hooks (fold (resume r) ws s)) = length (hooks s)"
  by (induction ws arbitrary: s; simp)+

lemma resume_cache_kept:
  "settingsCache s \<noteq> None \<Longrightarrow> settingsCache (resume r w s) \<noteq> None"
  by (cases r; cases w; simp add: Let_def)

lemma fold_resume_cache_kept:
  "settingsCache s \<noteq> None \<Longrightarrow> settingsCache (fold (resume r) ws s) \<noteq> None"
proof (induction ws arbitrary: s)
  case Nil then show ?case by simp
next
  case (Cons w ws)
  have "settingsCache (resume r w s) \<noteq> None"
    using Cons.prems by (rule resume_cache_kept)
  then have "settingsCache (fold (resume r) ws (resume r w s)) \<noteq> None"
    by (rule Cons.IH)
  then show ?case by simp
qed

lemma fold_resume_failure_cache:
  "settingsCache (fold (resume (Inl t)) ws s) = settingsCache s"
proof (induction ws arbitrary: s)
  case Nil show ?case by simp
next
  case (Cons w ws) show ?case by (cases w) (simp_all add: Cons.IH)
qed

lemma fold_resume_success_cache:
  "settingsCache (fold (resume (Inr v)) ws s) =
     (if \<exists>h. Initiator h \<in> set ws then Some v else settingsCache s)"
proof (induction ws arbitrary: s)
  case Nil show ?case by simp
next
  case (Cons w ws) show ?case by (cases w) (auto simp add: Cons.IH)
qed

lemma cleanup_frame [simp]:
  "settingsCache (cleanup h s) = settingsCache s"
  "fetchPromise (cleanup h s) = fetchPromise s"
  "promises (cleanup h s) = promises s"
  "requests (cleanup h s) = requests s"
  by (simp_all add: cleanup_def)

subsection \<open>Mounting\<close>

lemma mount_first:
  assumes "settingsCache s = None" and "fetchPromise s = None"
  shows "useSiteSettings s =
     s\<lparr>hooks := hooks s @ [fresh_hook],
       promises := promises s @ [Pending [Initiator (length (hooks s))]],
       fetchPromise := Some (length (promises s)),
       requests := requests s + 1\<rparr>"
  using assms
  by (simp add: useSiteSettings_def fetchSettings_def await_def fresh_hook_def Let_def)

lemma mount_join:
  assumes "settingsCache s = None" and "fetchPromise s = Some p"
    and "p < length (promises s)" and "promises s ! p = Pending ws"
  shows "useSiteSettings s =
     s\<lparr>hooks := hooks s @ [fresh_hook],
       promises := (promises s)[p := Pending (ws @ [Joiner (length (hooks s))])]\<rparr>"
  using assms
  by (simp add: useSiteSettings_def fetchSettings_def await_def fresh_hook_def Let_def)

lemma mount_cached:
  assumes "settingsCache s = Some c"
  shows "useSiteSettings s =
     s\<lparr>hooks := hooks s @ [\<lparr>settings = c, isLoading = False, error = None, isMounted = True\<rparr>]\<rparr>"
  using assms
  by (simp add: useSiteSettings_def fetchSettings_def if_mounted_def Let_def)

lemma run_snoc: "run (evs @ [e]) s = step e (run evs s)"
  by (simp add: run_def)

text \<open>
  \<open>Suc k\<close> hooks mounting in a row while nothing is cached and nothing is in flight:
  the first starts the fetch, the others queue on its promise.
\<close>

lemma mounts_burst:
  assumes "settingsCache s = None" and "fetchPromise s = None"
  shows "run (replicate (Suc k) Mount) s =
     s\<lparr>hooks := hooks s @ replicate (Suc k) fresh_hook,
       promises := promises s @
         [Pending (Initiator (length (hooks s)) #
                   map Joiner [Suc (length (hooks s)) ..< Suc (length (hooks s)) + k])],
       fetchPromise := Some (length (promises s)),
       requests := requests s + 1\<rparr>"
proof (induction k)
  case 0
  show ?case using assms by (simp add: run_def mount_first)
next
  case (Suc k)
  let ?n = "length (hooks s)"
  define s1 where "s1 = run (replicate (Suc k) Mount) s"
  have ih: "s1 = s\<lparr>hooks := hooks s @ replicate (Suc k) fresh_hook,
       promises := promises s @
         [Pending (Initiator ?n # map Joiner [Suc ?n ..< Suc ?n + k])],
       fetchPromise := Some (length (promises s)),
       requests := requests s + 1\<rparr>"
    unfolding s1_def by (rule Suc.IH)
  have "replicate (Suc (Suc k)) Mount = replicate (Suc k) Mount @ [Mount]"
    by (simp add: replicate_append_same)
  then have r: "run (replicate (Suc (Suc k)) Mount) s = useSiteSettings s1"
    unfolding s1_def by (simp only: run_snoc step.simps)
  have "useSiteSettings s1 =
     s1\<lparr>hooks := hooks s1 @ [fresh_hook],
       promises := (promises s1)[length (promises s) :=
         Pending ((Initiator ?n # map Joiner [Suc ?n ..< Suc ?n + k])
                   @ [Joiner (length (hooks s1))])]\<rparr>"
    by (rule mount_join) (simp_all add: ih assms)
  then show ?case
    unfolding r by (simp add: ih replicate_append_same)
qed

subsection \<open>The fetch settles\<close>

lemma fresh_hook_mounted [simp]: "isMounted fresh_hook"
  by (simp add: fresh_hook_def)

lemma joined_fresh: "joined r fresh_hook = resolved_hook r"
  by (cases r) (simp_all add: joined_def fresh_hook_def resolved_hook_def)

lemma started_fresh: "started r fresh_hook = resolved_hook r"
  by (cases r) (simp_all add: started_def fresh_hook_def resolved_hook_def)

lemma joined_idem [simp]: "joined r (joined r k) = joined r k" "isMounted (joined r k) = isMounted k"
  by (cases r; simp add: joined_def)+

lemma resume_Joiner_nth:
  "j < length (hooks s) \<Longrightarrow>
   hooks (resume r (Joiner h) s) ! j =
     (if j = h \<and> isMounted (hooks s ! j) then joined r (hooks s ! j) else hooks s ! j)"
  by (cases r) (auto simp: if_mounted_def joined_def)

lemma resume_Initiator_nth:
  "j < length (hooks s) \<Longrightarrow>
   hooks (resume r (Initiator h) s) ! j =
     (if j = h \<and> isMounted (hooks s ! j) then started r (hooks s ! j) else hooks s ! j)"
  by (cases r) (auto simp: if_mounted_def started_def Let_def)

lemma fold_joiners_nth:
  "j < length (hooks s) \<Longrightarrow>
   hooks (fold (resume r) (map Joiner hs) s) ! j =
     (if j \<in> set hs \<and> isMounted (hooks s ! j) then joined r (hooks s ! j) else hooks s ! j)"
proof (induction hs arbitrary: s)
  case Nil
  show ?case by simp
next
  case (Cons h hs)
  have "j < length (hooks (resume r (Joiner h) s))" using Cons.prems by simp
  from Cons.IH [OF this] show ?case
    using Cons.prems by (auto simp: resume_Joiner_nth)
qed

lemma fold_joiners_frame [simp]:
  "settingsCache (fold (resume r) (map Joiner hs) s) = settingsCache s"
  "fetchPromise (fold (resume r) (map Joiner hs) s) = fetchPromise s"
  by (induction hs arbitrary: s; simp)+

lemma burst_settled:
  fixes s :: module_state and k :: nat and out :: fetch_outcome
  assumes c: "settingsCache s = None" and f: "fetchPromise s = None"
  defines "s2 \<equiv> settle (length (promises s)) out (run (replicate (Suc k) Mount) s)"
  shows "requests s2 = requests s + 1"
    and "settingsCache s2 = (case fetch_job out of Inr v \<Rightarrow> Some v | Inl t \<Rightarrow> None)"
    and "fetchPromise s2 = None"
    and "promises s2 ! length (promises s) =
           (case fetch_job out of Inl t \<Rightarrow> RejectedWith t | Inr v \<Rightarrow> Fulfilled v)"
    and "length (hooks s) \<le> h \<Longrightarrow> h < length (hooks s) + Suc k \<Longrightarrow>
           hooks s2 ! h = resolved_hook (fetch_job out)"
    and "h < length (hooks s) \<Longrightarrow> hooks s2 ! h = hooks s ! h"
proof -
  let ?n = "length (hooks s)" and ?p = "length (promises s)" and ?r = "fetch_job out"
  define s0 where "s0 = run (replicate (Suc k) Mount) s"
  have s0: "s0 = s\<lparr>hooks := hooks s @ replicate (Suc k) fresh_hook,
       promises := promises s @
         [Pending (Initiator ?n # map Joiner [Suc ?n ..< Suc ?n + k])],
       fetchPromise := Some ?p,
       requests := requests s + 1\<rparr>"
    unfolding s0_def by (rule mounts_burst [OF c f])
  define s1 where "s1 = s0
      \<lparr>promises := (promises s0)
         [?p := (case ?r of Inl t \<Rightarrow> RejectedWith t | Inr v \<Rightarrow> Fulfilled v)]\<rparr>"
  define s1i where "s1i = resume ?r (Initiator ?n) s1"
  have "s2 = settle ?p out s0" unfolding s2_def s0_def ..
  also have "\<dots> = fold (resume ?r) (map Joiner [Suc ?n ..< Suc ?n + k]) s1i"
    unfolding s1i_def s1_def by (simp add: settle_def s0 Let_def)
  finally have s2: "s2 = fold (resume ?r) (map Joiner [Suc ?n ..< Suc ?n + k]) s1i" .
  have h1: "hooks s1 = hooks s @ replicate (Suc k) fresh_hook"
    and c1: "settingsCache s1 = None" and r1: "requests s1 = requests s + 1"
    and p1: "promises s1 ! ?p = (case ?r of Inl t \<Rightarrow> RejectedWith t | Inr v \<Rightarrow> Fulfilled v)"
    unfolding s1_def by (simp_all add: s0 c)
  show "requests s2 = requests s + 1" by (simp add: s2 s1i_def r1)
  show "settingsCache s2 = (case ?r of Inr v \<Rightarrow> Some v | Inl t \<Rightarrow> None)"
    by (cases ?r) (simp_all add: s2 s1i_def c1)
  show "fetchPromise s2 = None" by (simp add: s2 s1i_def)
  show "promises s2 ! ?p = (case ?r of Inl t \<Rightarrow> RejectedWith t | Inr v \<Rightarrow> Fulfilled v)"
    by (simp add: s2 s1i_def p1)
  have li: "length (hooks s1i) = ?n + Suc k" by (simp add: s1i_def h1)
  have hi: "hooks s1i ! j = (if j = ?n then resolved_hook ?r else hooks s1 ! j)"
    if "j < ?n + Suc k" for j
    using that unfolding s1i_def
    by (simp add: resume_Initiator_nth h1 nth_append started_fresh)
  { assume a: "?n \<le> h" "h < ?n + Suc k"
    have "hooks s2 ! h = (if h \<in> set [Suc ?n ..< Suc ?n + k] \<and> isMounted (hooks s1i ! h)
            then joined ?r (hooks s1i ! h) else hooks s1i ! h)"
      unfolding s2 using a by (intro fold_joiners_nth) (simp add: li)
    then show "hooks s2 ! h = resolved_hook ?r"
      using a by (auto simp: hi h1 nth_append joined_fresh) }
  { assume a: "h < ?n"
    have "hooks s2 ! h = (if h \<in> set [Suc ?n ..< Suc ?n + k] \<and> isMounted (hooks s1i ! h)
            then joined ?r (hooks s1i ! h) else hooks s1i ! h)"
      unfolding s2 using a by (intro fold_joiners_nth) (simp add: li)
    then show "hooks s2 ! h = hooks s ! h"
      using a by (simp add: hi h1 nth_append) }
qed

lemma resolved_hook_simps:
  "settings (resolved_hook r) = (case r of Inr v \<Rightarrow> v | Inl t \<Rightarrow> DEFAULT_SITE_SETTINGS)"
  "error (resolved_hook r) = (case r of Inr v \<Rightarrow> None | Inl t \<Rightarrow> Some (as_error t))"
  "isLoading (resolved_hook r) = False"
  "isMounted (resolved_hook r) = True"
  by (cases r; simp add: resolved_hook_def)+

lemma burst:
  fixes s :: module_state and K :: nat and out :: fetch_outcome
  assumes K: "1 \<le> K" and c: "settingsCache s = None" and f: "fetchPromise s = None"
  defines "s2 \<equiv> settle (length (promises s)) out (run (replicate K Mount) s)"
  shows "requests (run (replicate K Mount) s) = requests s + 1"
    and "requests s2 = requests s + 1"
    and "settingsCache s2 = (case fetch_job out of Inr v \<Rightarrow> Some v | Inl t \<Rightarrow> None)"
    and "fetchPromise s2 = None"
    and "promises s2 ! length (promises s) =
           (case fetch_job out of Inl t \<Rightarrow> RejectedWith t | Inr v \<Rightarrow> Fulfilled v)"
    and "h \<in> {length (hooks s) ..< length (hooks s) + K} \<Longrightarrow>
           hooks s2 ! h = resolved_hook (fetch_job out)"
proof -
  from K obtain k where k: "K = Suc k" by (cases K) auto
  show "requests (run (replicate K Mount) s) = requests s + 1"
    unfolding k by (simp only: mounts_burst [OF c f]) simp
  show "requests s2 = requests s + 1"
    unfolding s2_def k by (rule burst_settled(1) [OF c f])
  show "settingsCache s2 = (case fetch_job out of Inr v \<Rightarrow> Some v | Inl t \<Rightarrow> None)"
    unfolding s2_def k by (rule burst_settled(2) [OF c f])
  show "fetchPromise s2 = None"
    unfolding s2_def k by (rule burst_settled(3) [OF c f])
  show "promises s2 ! length (promises s) =
           (case fetch_job out of Inl t \<Rightarrow> RejectedWith t | Inr v \<Rightarrow> Fulfilled v)"
    unfolding s2_def k by (rule burst_settled(4) [OF c f])
  show "hooks s2 ! h = resolved_hook (fetch_job out)"
    if "h \<in> {length (hooks s) ..< length (hooks s) + K}"
    using that unfolding s2_def k by (intro burst_settled(5) [OF c f]) simp_all
qed

lemma initial_simps:
  "settingsCache initial = None" "fetchPromise initial = None" "promises initial = []"
  "hooks initial = []" "requests initial = 0"
  by (simp_all add: initial_def)

lemma fetch_job_examples:
  "fetch_job zero_rows = Inr DEFAULT_SITE_SETTINGS"
  "fetch_job not_an_array = Inr DEFAULT_SITE_SETTINGS"
  "fetch_job bad_json = Inl (ThrownError (Error ''Unexpected token < in JSON at position 0''))"
  by (simp_all add: fetch_job_def zero_rows_def not_an_array_def bad_json_def ok_def)

lemma failing_job:
  assumes "out = FetchRejects t \<or> (\<exists>r. out = FetchResponds r \<and> \<not> ok r)"
  shows "\<exists>e. fetch_job out = Inl e"
  using assms by (auto simp: fetch_job_def)



lemma settle_failure_cache:
  assumes "fetch_job out = Inl t"
  shows "settingsCache (settle p out s) = settingsCache s"
  using assms
  by (auto simp: settle_def Let_def fold_resume_failure_cache split: promise.splits)

subsection \<open>A populated cache stays populated until it is cleared\<close>

lemma step_cached:
  assumes "settingsCache s \<noteq> None" and "e \<noteq> Clear"
  shows "settingsCache (step e s) \<noteq> None \<and> requests (step e s) = requests s"
proof (cases e)
  case Mount
  from assms(1) obtain c where "settingsCache s = Some c" by auto
  then show ?thesis using Mount by (simp add: mount_cached)
next
  case (Unmount h)
  then show ?thesis using assms(1) by simp
next
  case Clear
  then show ?thesis using assms(2) by simp
next
  case (Respond p out)
  then show ?thesis using assms(1)
    by (auto simp: settle_def Let_def fold_resume_cache_kept [simplified] split: promise.splits)
qed

lemma run_cached:
  "settingsCache s \<noteq> None \<Longrightarrow> Clear \<notin> set evs \<Longrightarrow>
   settingsCache (run evs s) \<noteq> None \<and> requests (run evs s) = requests s"
proof (induction evs arbitrary: s)
  case Nil
  then show ?case by (simp add: run_def)
next
  case (Cons e evs)
  have e: "e \<noteq> Clear" and evs: "Clear \<notin> set evs" using Cons.prems(2) by auto
  have s1: "settingsCache (step e s) \<noteq> None" and r1: "requests (step e s) = requests s"
    using step_cached [OF Cons.prems(1) e] by simp_all
  have "run (e # evs) s = run evs (step e s)" by (simp add: run_def)
  then show ?case using Cons.IH [OF s1 evs] r1 by simp
qed

subsection \<open>A fetch in flight stays in flight until it is answered\<close>

lemma in_flight_iff:
  "in_flight p h s \<longleftrightarrow>
     p < length (promises s) \<and> (\<exists>ws. promises s ! p = Pending ws \<and> Initiator h \<in> set ws)"
  by (auto simp: in_flight_def split: promise.splits)

lemma await_in_flight:
  assumes "in_flight p h s"
  shows "in_flight p h (await q w s)"
proof -
  from assms obtain ws where p: "p < length (promises s)"
    and ws: "promises s ! p = Pending ws" "Initiator h \<in> set ws"
    by (auto simp: in_flight_iff)
  show ?thesis
  proof (cases "q < length (promises s)")
    case False
    then show ?thesis using assms by (simp add: await_def)
  next
    case True
    show ?thesis
    proof (cases "promises s ! q")
      case (Pending qs)
      then show ?thesis using True p ws
        by (cases "q = p") (simp_all add: await_def in_flight_iff)
    next
      case (Fulfilled v)
      then show ?thesis using True assms by (simp add: await_def in_flight_def)
    next
      case (RejectedWith t)
      then show ?thesis using True assms by (simp add: await_def in_flight_def)
    qed
  qed
qed

lemma fetchSettings_in_flight:
  assumes "in_flight p h s"
  shows "in_flight p h (fetchSettings j s)"
proof (cases "settingsCache s")
  case (Some c)
  then show ?thesis using assms by (simp add: fetchSettings_def in_flight_def)
next
  case None
  show ?thesis
  proof (cases "fetchPromise s")
    case (Some q)
    then show ?thesis using None assms by (simp add: fetchSettings_def await_in_flight)
  next
    case fp: None
    have "in_flight p h (s\<lparr>requests := requests s + 1,
             promises := promises s @ [Pending []],
             fetchPromise := Some (length (promises s))\<rparr>)"
      using assms by (auto simp: in_flight_iff nth_append)
    then show ?thesis using None fp
      by (simp add: fetchSettings_def Let_def await_in_flight)
  qed
qed

lemma mount_in_flight:
  assumes "in_flight p h s"
  shows "in_flight p h (useSiteSettings s)"
proof -
  have "in_flight p h (s\<lparr>hooks := hooks s @ [k]\<rparr>)" for k
    using assms by (simp add: in_flight_def)
  then show ?thesis by (simp add: useSiteSettings_def Let_def fetchSettings_in_flight)
qed

lemma step_in_flight:
  assumes "in_flight p h s" and "\<And>out. e \<noteq> Respond p out"
  shows "in_flight p h (step e s)"
proof (cases e)
  case Mount
  then show ?thesis using assms(1) by (simp add: mount_in_flight)
next
  case (Unmount j)
  then show ?thesis using assms(1) by (simp add: in_flight_def)
next
  case Clear
  then show ?thesis using assms(1) by (simp add: in_flight_def clearSiteSettingsCache_def)
next
  case (Respond q out)
  then have "q \<noteq> p" using assms(2) by auto
  show ?thesis
  proof (cases "q < length (promises s)")
    case False
    then show ?thesis using assms(1) Respond by (simp add: settle_def)
  next
    case True
    show ?thesis
    proof (cases "promises s ! q")
      case (Pending qs)
      then show ?thesis using True assms(1) Respond \<open>q \<noteq> p\<close>
        by (simp add: settle_def Let_def in_flight_def)
    next
      case (Fulfilled v)
      then show ?thesis using True assms(1) Respond by (simp add: settle_def)
    next
      case (RejectedWith t)
      then show ?thesis using True assms(1) Respond by (simp add: settle_def)
    qed
  qed
qed

lemma run_in_flight:
  "in_flight p h s \<Longrightarrow> (\<And>out. Respond p out \<notin> set evs) \<Longrightarrow> in_flight p h (run evs s)"
proof (induction evs arbitrary: s)
  case Nil
  then show ?case by (simp add: run_def)
next
  case (Cons e evs)
  have e: "e \<noteq> Respond p out" for out using Cons.prems(2) [of out] by auto
  have evs: "Respond p out \<notin> set evs" for out using Cons.prems(2) [of out] by auto
  have "in_flight p h (step e s)" using Cons.prems(1) e by (rule step_in_flight)
  then have "in_flight p h (run evs (step e s))" using evs by (rule Cons.IH)
  then show ?case by (simp add: run_def)
qed

lemma settle_in_flight_success:
  assumes "in_flight p h s" and "fetch_job out = Inr v"
  shows "settingsCache (settle p out s) = Some v"
  using assms
  by (auto simp: in_flight_iff settle_def Let_def fold_resume_success_cache)

section \<open>Lemmas about the editors\<close>

subsection \<open>Reading a store that has grown\<close>

lemma valid_simps [simp]:
  "valid h (Str s)" "valid h (Num n)" "valid h (Bool b)" "valid h Null" "valid h Undefined"
  "valid h (Ref a) \<longleftrightarrow> a < length h"
  by (simp_all add: valid_def)

lemma valid_ext: "valid h v \<Longrightarrow> valid (h @ ext) v"
  by (cases v) simp_all

lemma fields_ext: "valid h v \<Longrightarrow> fields (h @ ext) v = fields h v"
  by (cases v) (simp_all add: fields_def nth_append)

lemma elems_ext: "valid h v \<Longrightarrow> elems (h @ ext) v = elems h v"
  by (cases v) (simp_all add: elems_def nth_append)

lemma get_ext: "valid h v \<Longrightarrow> get (h @ ext) v k = get h v k"
  by (simp add: get_def fields_ext)

lemma item_at_ext: "valid h v \<Longrightarrow> item_at (h @ ext) v i = item_at h v i"
  by (simp add: item_at_def elems_ext)

lemma fields_valid: "fields h v = Some fs \<Longrightarrow> valid h v"
  by (cases v) (simp_all add: fields_def split: if_splits)

lemma elems_valid: "elems h v = Some xs \<Longrightarrow> valid h v"
  by (cases v) (simp_all add: elems_def split: if_splits)

lemma fields_elems: "fields h v = Some fs \<Longrightarrow> elems h v = None"
  by (cases v) (simp_all add: fields_def elems_def split: if_splits cell.splits)

lemma elems_fields: "elems h v = Some xs \<Longrightarrow> fields h v = None"
  by (cases v) (simp_all add: fields_def elems_def split: if_splits cell.splits)

lemma closed_cell:
  "closed h \<Longrightarrow> a < length h \<Longrightarrow> x \<in> set (cell_vals (h ! a)) \<Longrightarrow> valid h x"
  by (auto simp: closed_def list_all_iff)

lemma closed_fields:
  assumes "closed h" and "fields h v = Some fs" and "(k, x) \<in> set fs"
  shows "valid h x"
proof -
  from assms(2) obtain a where v: "v = Ref a" and a: "a < length h" and c: "h ! a = Object fs"
    by (cases v) (auto simp: fields_def split: if_splits cell.splits)
  have "x \<in> set (cell_vals (h ! a))" using assms(3) c by (force simp: cell_vals_def)
  then show ?thesis using assms(1) a by (rule closed_cell [rotated 2])
qed

lemma closed_elems:
  assumes "closed h" and "elems h v = Some xs" and "x \<in> set xs"
  shows "valid h x"
proof -
  from assms(2) obtain a where v: "v = Ref a" and a: "a < length h" and c: "h ! a = Array xs"
    by (cases v) (auto simp: elems_def split: if_splits cell.splits)
  have "x \<in> set (cell_vals (h ! a))" using assms(3) c by (simp add: cell_vals_def)
  then show ?thesis using assms(1) a by (rule closed_cell [rotated 2])
qed

lemma closed_get: "closed h \<Longrightarrow> valid h (get h v k)"
  by (auto simp: get_def split: option.splits dest: map_of_SomeD closed_fields)

lemma closed_item_at: "closed h \<Longrightarrow> item_at h v i = Some x \<Longrightarrow> valid h x"
  by (auto simp: item_at_def split: option.splits if_splits intro: closed_elems)

lemma at_Undefined [simp]: "at h Undefined q = Undefined"
proof (induction q)
  case Nil show ?case by simp
next
  case (Cons s q) then show ?case
    by (cases s) (simp_all add: get_def fields_def item_at_def elems_def)
qed

lemma at_ext: "closed h \<Longrightarrow> valid h v \<Longrightarrow> at (h @ ext) v q = at h v q"
proof (induction q arbitrary: v)
  case Nil
  show ?case by simp
next
  case (Cons s q)
  show ?case
  proof (cases s)
    case (Key k)
    have "valid h (get h v k)" using Cons.prems(1) by (rule closed_get)
    then show ?thesis using Key Cons by (simp add: get_ext)
  next
    case (Idx i)
    show ?thesis
    proof (cases "item_at h v i")
      case None
      then show ?thesis using Idx Cons.prems by (simp add: item_at_ext)
    next
      case (Some x)
      then have "valid h x" using Cons.prems(1) by (auto dest: closed_item_at)
      then show ?thesis using Idx Some Cons by (simp add: item_at_ext)
    qed
  qed
qed

lemma closed_snoc:
  assumes "closed h" and "list_all (valid (h @ [c])) (cell_vals c)"
  shows "closed (h @ [c])"
  using assms by (auto simp: closed_def list_all_iff intro: valid_ext)

lemma spread_set_Some:
  "spread_set h v k x = Some (h', v') \<longleftrightarrow>
     (\<exists>fs. fields h v = Some fs \<and> h' = h @ [Object (AList.update k x fs)] \<and> v' = Ref (length h))"
  by (auto simp: spread_set_def alloc_def split: option.splits)

lemma fields_new [simp]: "fields (h @ [Object fs]) (Ref (length h)) = Some fs"
  by (simp add: fields_def)

lemma elems_new [simp]: "elems (h @ [Array xs]) (Ref (length h)) = Some xs"
  by (simp add: elems_def)

lemma fields_new_Array [simp]: "fields (h @ [Array xs]) (Ref (length h)) = None"
  by (simp add: fields_def)

lemma elems_new_Object [simp]: "elems (h @ [Object fs]) (Ref (length h)) = None"
  by (simp add: elems_def)

lemma get_new:
  "get (h @ [Object (AList.update k x fs)]) (Ref (length h)) k' =
     (if k' = k then x else (case map_of fs k' of Some y \<Rightarrow> y | None \<Rightarrow> Undefined))"
  by (simp add: get_def update_conv')

lemma set_update_subset: "(k', y) \<in> set (AList.update k x fs) \<Longrightarrow> y = x \<or> (k', y) \<in> set fs"
  by (induction fs) (auto split: if_splits)

subsection \<open>Copying along a path\<close>

lemma assign_new:
  "assign_index (h @ [Array xs]) (Ref (length h)) i x = h @ [Array (set_index xs i x)]"
  by (simp add: assign_index_def)

lemma set_index_in: "i < length xs \<Longrightarrow> set_index xs i x = xs[i := x]"
  by (simp add: set_index_def)

lemma item_at_new:
  "item_at (h @ [Array xs]) (Ref (length h)) j = (if j < length xs then Some (xs ! j) else None)"
  by (simp add: item_at_def)

lemma get_Array: "elems h v = Some xs \<Longrightarrow> get h v k = Undefined"
  by (simp add: get_def elems_fields)

lemma item_at_Object: "fields h v = Some fs \<Longrightarrow> item_at h v i = None"
  by (simp add: item_at_def fields_elems)

lemma get_fields: "fields h v = Some fs \<Longrightarrow>
    get h v k = (case map_of fs k of Some y \<Rightarrow> y | None \<Rightarrow> Undefined)"
  by (simp add: get_def)

lemma cow_frame:
  assumes "cow h v p x = Some (h', v')" and "closed h" and "valid h v" and "valid h x"
  shows "(\<exists>ext. h' = h @ ext) \<and> closed h' \<and> valid h' v' \<and> at h' v' p = x \<and>
         (\<forall>q. \<not> prefix q p \<and> \<not> prefix p q \<longrightarrow> at h' v' q = at h v q)"
  using assms
proof (induction p arbitrary: v h' v')
  case Nil
  then show ?case by simp
next
  case (Cons s p)
  note cl = \<open>closed h\<close> and vv = \<open>valid h v\<close> and vx = \<open>valid h x\<close>
  show ?case
  proof (cases s)
    case (Key k)
    from Cons.prems(1) Key obtain h1 child
      where c1: "cow h (get h v k) p x = Some (h1, child)"
        and sp: "spread_set h1 v k child = Some (h', v')"
      by (auto split: option.splits)
    have vg: "valid h (get h v k)" using cl by (rule closed_get)
    from Cons.IH [OF c1 cl vg vx] obtain ext1
      where h1: "h1 = h @ ext1" and cl1: "closed h1" and vc: "valid h1 child"
        and at1: "at h1 child p = x"
        and fr1: "\<And>q. \<not> prefix q p \<Longrightarrow> \<not> prefix p q \<Longrightarrow> at h1 child q = at h (get h v k) q"
      by blast
    from sp obtain fs where fs1: "fields h1 v = Some fs"
        and h': "h' = h1 @ [Object (AList.update k child fs)]" and v': "v' = Ref (length h1)"
      by (auto simp: spread_set_Some)
    have fs: "fields h v = Some fs" using fs1 vv by (simp add: h1 fields_ext)
    have "list_all (valid h') (cell_vals (Object (AList.update k child fs)))"
    proof -
      have "valid h' y" if "(k', y) \<in> set (AList.update k child fs)" for k' y
      proof -
        from set_update_subset [OF that] have "valid h1 y"
          using vc closed_fields [OF cl1 fs1] by auto
        then show ?thesis unfolding h' by (rule valid_ext)
      qed
      then show ?thesis by (auto simp: cell_vals_def list_all_iff)
    qed
    then have cl': "closed h'" unfolding h' using cl1 by (intro closed_snoc)
    have ext: "h' = h @ (ext1 @ [Object (AList.update k child fs)])" by (simp add: h' h1)
    have atp: "at h' v' (s # p) = x"
      using at1 by (simp add: Key h' v' get_new at_ext [OF cl1 vc])
    have frame: "at h' v' q = at h v q" if np: "\<not> prefix q (s # p)" "\<not> prefix (s # p) q" for q
    proof (cases q)
      case Nil
      then show ?thesis using np by simp
    next
      case (Cons s' q')
      show ?thesis
      proof (cases s')
        case (Key k')
        show ?thesis
        proof (cases "k' = k")
          case True
          have "\<not> prefix q' p" "\<not> prefix p q'"
            using np Cons \<open>s' = Key k'\<close> \<open>s = Key k\<close> True by simp_all
          then have "at h1 child q' = at h (get h v k) q'" by (rule fr1)
          then show ?thesis
            using True by (simp add: Cons \<open>s' = Key k'\<close> h' v' get_new at_ext [OF cl1 vc])
        next
          case False
          have g: "get h' v' k' = get h v k'"
            using False by (simp add: h' v' get_new get_fields [OF fs])
          have "valid h (get h v k')" using cl by (rule closed_get)
          then have "at h' (get h v k') q' = at h (get h v k') q'"
            unfolding ext using cl by (intro at_ext)
          then show ?thesis by (simp add: Cons \<open>s' = Key k'\<close> g)
        qed
      next
        case (Idx j)
        have "item_at h' v' j = None" by (simp add: h' v' item_at_def)
        moreover have "item_at h v j = None" using fs by (rule item_at_Object)
        ultimately show ?thesis by (simp add: Cons Idx)
      qed
    qed
    have "valid h' v'" by (simp add: h' v')
    with ext cl' atp frame show ?thesis by blast
  next
    case (Idx i)
    from Cons.prems(1) Idx obtain item h1 child xs
      where it: "item_at h v i = Some item"
        and c1: "cow h item p x = Some (h1, child)"
        and xs1: "elems h1 v = Some xs"
        and h': "h' = assign_index (h1 @ [Array xs]) (Ref (length h1)) i child"
        and v': "v' = Ref (length h1)"
      by (auto simp: alloc_def split: option.splits)
    have vi: "valid h item" using cl it by (rule closed_item_at)
    from Cons.IH [OF c1 cl vi vx] obtain ext1
      where h1: "h1 = h @ ext1" and cl1: "closed h1" and vc: "valid h1 child"
        and at1: "at h1 child p = x"
        and fr1: "\<And>q. \<not> prefix q p \<Longrightarrow> \<not> prefix p q \<Longrightarrow> at h1 child q = at h item q"
      by blast
    have xs: "elems h v = Some xs" using xs1 vv by (simp add: h1 elems_ext)
    have i: "i < length xs" and item: "item = xs ! i"
      using it xs by (simp_all add: item_at_def split: if_splits)
    have h'': "h' = h1 @ [Array (xs[i := child])]"
      by (simp add: h' assign_new set_index_in [OF i])
    have "list_all (valid h') (cell_vals (Array (xs[i := child])))"
    proof -
      have "valid h' y" if "y \<in> set (xs[i := child])" for y
      proof -
        from that have "y = child \<or> y \<in> set xs"
          using set_update_subset_insert [of xs i child] by auto
        then have "valid h1 y" using vc closed_elems [OF cl1 xs1] by auto
        then show ?thesis unfolding h'' by (rule valid_ext)
      qed
      then show ?thesis by (auto simp: cell_vals_def list_all_iff)
    qed
    then have cl': "closed h'" unfolding h'' using cl1 by (intro closed_snoc)
    have ext: "h' = h @ (ext1 @ [Array (xs[i := child])])" by (simp add: h'' h1)
    have atp: "at h' v' (s # p) = x"
      using at1 i by (simp add: Idx h'' v' item_at_new at_ext [OF cl1 vc])
    have frame: "at h' v' q = at h v q" if np: "\<not> prefix q (s # p)" "\<not> prefix (s # p) q" for q
    proof (cases q)
      case Nil
      then show ?thesis using np by simp
    next
      case (Cons s' q')
      show ?thesis
      proof (cases s')
        case (Key k')
        have "get h' v' k' = Undefined" by (simp add: h'' v' get_def)
        moreover have "get h v k' = Undefined" using xs by (rule get_Array)
        ultimately show ?thesis by (simp add: Cons Key)
      next
        case (Idx j)
        show ?thesis
        proof (cases "j = i")
          case True
          have "\<not> prefix q' p" "\<not> prefix p q'"
            using np Cons \<open>s' = Idx j\<close> \<open>s = Idx i\<close> True by simp_all
          then have "at h1 child q' = at h item q'" by (rule fr1)
          then show ?thesis
            using True i
            by (simp add: Cons \<open>s' = Idx j\<close> h'' v' item_at_new it at_ext [OF cl1 vc])
        next
          case False
          show ?thesis
          proof (cases "j < length xs")
            case True
            have ij: "item_at h v j = Some (xs ! j)" using xs True by (simp add: item_at_def)
            have "valid h (xs ! j)" using cl ij by (rule closed_item_at)
            then have "at h' (xs ! j) q' = at h (xs ! j) q'"
              unfolding ext using cl by (intro at_ext)
            then show ?thesis
              using True False by (simp add: Cons Idx h'' v' item_at_new ij)
          next
            case nj: False
            have "item_at h v j = None" using xs nj by (simp add: item_at_def)
            then show ?thesis using nj by (simp add: Cons Idx h'' v' item_at_new)
          qed
        qed
      qed
    qed
    have "valid h' v'" by (simp add: h'' v')
    with ext cl' atp frame show ?thesis by blast
  qed
qed

subsection \<open>The handlers copy along the path of their input\<close>

lemma walkable_ext:
  "closed h \<Longrightarrow> valid h v \<Longrightarrow> walkable (h @ ext) v p = walkable h v p"
proof (induction p arbitrary: v)
  case Nil
  show ?case by simp
next
  case (Cons s p)
  show ?case
  proof (cases s)
    case (Key k)
    have "valid h (get h v k)" using Cons.prems(1) by (rule closed_get)
    then show ?thesis using Key Cons by (simp add: get_ext fields_ext)
  next
    case (Idx i)
    show ?thesis
    proof (cases "item_at h v i")
      case None
      then show ?thesis using Idx Cons.prems by (simp add: item_at_ext)
    next
      case (Some x)
      then have "valid h x" using Cons.prems(1) by (auto dest: closed_item_at)
      then show ?thesis using Idx Some Cons by (simp add: item_at_ext)
    qed
  qed
qed

lemma cow_total:
  assumes "walkable h v p" and "closed h" and "valid h v" and "valid h x"
  shows "\<exists>h' v'. cow h v p x = Some (h', v')"
  using assms
proof (induction p arbitrary: v)
  case Nil
  show ?case by simp
next
  case (Cons s p)
  note cl = \<open>closed h\<close> and vv = \<open>valid h v\<close> and vx = \<open>valid h x\<close>
  show ?case
  proof (cases s)
    case (Key k)
    from Cons.prems(1) Key obtain fs where fs: "fields h v = Some fs"
      and w: "walkable h (get h v k) p" by auto
    have vg: "valid h (get h v k)" using cl by (rule closed_get)
    from Cons.IH [OF w cl vg vx] obtain h1 child
      where c1: "cow h (get h v k) p x = Some (h1, child)" by blast
    from cow_frame [OF c1 cl vg vx] obtain ext1 where "h1 = h @ ext1" by blast
    then have "fields h1 v = Some fs" using fs vv by (simp add: fields_ext)
    then show ?thesis using Key c1 by (simp add: spread_set_def alloc_def)
  next
    case (Idx i)
    from Cons.prems(1) Idx obtain item where it: "item_at h v i = Some item"
      and w: "walkable h item p" by (auto split: option.splits)
    have vi: "valid h item" using cl it by (rule closed_item_at)
    from Cons.IH [OF w cl vi vx] obtain h1 child
      where c1: "cow h item p x = Some (h1, child)" by blast
    from cow_frame [OF c1 cl vi vx] obtain ext1 where h1: "h1 = h @ ext1" by blast
    from it obtain xs where "elems h v = Some xs"
      by (auto simp: item_at_def split: option.splits)
    then have "elems h1 v = Some xs" using vv by (simp add: h1 elems_ext)
    then show ?thesis using Idx it c1 by (simp add: alloc_def)
  qed
qed

lemma handle_cow:
  assumes "valid h content"
  shows "handle h content c v =
     (case cow (fst (leaf h c v)) content (path c) (snd (leaf h c v)) of
        None \<Rightarrow> None
      | Some (h', doc) \<Rightarrow> Some (h', [doc]))"
proof (cases c)
  case (SectionText sec fld)
  then show ?thesis by (simp add: update_def split: option.splits)
next
  case (SectionLines sec fld sep)
  then show ?thesis using assms
    by (simp add: update_def alloc_def get_ext split: option.splits)
next
  case (TopText fld)
  then show ?thesis by (simp add: update_def split: option.splits)
next
  case (ItemText key i fld)
  then show ?thesis
    by (simp add: update_def updateItem_def alloc_def split: option.splits)
next
  case (NestedItemText sec arr i fld)
  then show ?thesis
    by (simp add: update_def updateItem_def alloc_def split: option.splits)
qed

lemma walkable_path_valid: "walkable h content (path c) \<Longrightarrow> valid h content"
  by (cases c) (auto dest: fields_valid)

lemma leaf_frame:
  assumes "closed h" and "leaf h c v = (h0, x)"
  shows "\<exists>ext. h0 = h @ ext" and "closed h0" and "valid h0 x" and "entered h0 x c v"
  using assms
  by (cases c; auto simp: alloc_def closed_snoc cell_vals_def list_all_iff)+

lemma entered_ext: "valid h x \<Longrightarrow> entered h x c v \<Longrightarrow> entered (h @ ext) x c v"
  by (cases c) (simp_all add: elems_ext)

subsection \<open>The example document, and the buttons of a list\<close>

lemma home_store_closed: "closed home_store"
  by (simp add: closed_def home_store_def cell_vals_def)

lemma home_store_renders: "renders (PageContentEditor ''/home'') home_store (Ref 0)"
  by (simp add: PageContentEditor_def home_store_def is_object_def is_array_def is_rows_def
      fields_def get_def elems_def)

lemma home_store_renders_root: "renders (PageContentEditor ''/'') home_store (Ref 0)"
  by (simp add: PageContentEditor_def home_store_def is_object_def is_array_def is_rows_def
      fields_def get_def elems_def)

lemma feature_title_walkable: "walkable home_store (Ref 0) (path feature_title_input)"
  by (simp add: feature_title_input_def home_store_def fields_def get_def item_at_def elems_def)

lemma feature_title_is_input: "inputs (PageContentEditor ''/home'') feature_title_input"
  by (simp add: PageContentEditor_def HomePageEditor_def feature_title_input_def)

lemma split_filter_a: "split_filter blank_line ''a'' = [''a'']"
  by (simp add: split_filter_def split_def blank_line_def)

lemma removeItem_keeps_store:
  assumes "removeItem h items i (\<lambda>h2 arr. update h2 content key arr) = Some (h', calls)"
  shows "take (length h) h' = h \<and> length calls = 1"
  using assms
  by (auto simp: removeItem_def update_def spread_set_def alloc_def split: option.splits)

lemma addItem_keeps_store:
  assumes "addItem h items (\<lambda>h1. alloc h1 (Object template))
             (\<lambda>h2 arr. update h2 content key arr) = Some (h', calls)"
  shows "take (length h) h' = h \<and> length calls = 1"
  using assms
  by (auto simp: addItem_def update_def spread_set_def alloc_def split: option.splits)

section \<open>The claims about the settings cache\<close>

text \<open>
  C1 (single-flight). For every \<open>K \<ge> 1\<close>, when \<open>K\<close> hooks call for the settings in a
  row while the cache slot is empty and no fetch is in flight, \<^verbatim>\<open>fetch\<close> is called exactly
  once, also counted after the answer has arrived, and whatever the network answers, all
  \<open>K\<close> hooks end with the same settings value (the fetched settings, or the defaults when
  the fetch failed) and are no longer loading.
\<close>

theorem single_flight:
  assumes "1 \<le> K" and "settingsCache s = None" and "fetchPromise s = None"
  shows "requests (run (replicate K Mount) s) = requests s + 1 \<and>
         requests (settle (length (promises s)) out (run (replicate K Mount) s))
           = requests s + 1 \<and>
         (\<forall>h \<in> {length (hooks s) ..< length (hooks s) + K}.
            settings (hooks (settle (length (promises s)) out (run (replicate K Mount) s)) ! h)
              = (case fetch_job out of Inr v \<Rightarrow> v | Inl t \<Rightarrow> DEFAULT_SITE_SETTINGS) \<and>
            \<not> isLoading
                (hooks (settle (length (promises s)) out (run (replicate K Mount) s)) ! h))"
proof (intro conjI ballI)
  show "requests (run (replicate K Mount) s) = requests s + 1"
    by (rule burst(1) [OF assms])
  show "requests (settle (length (promises s)) out (run (replicate K Mount) s)) = requests s + 1"
    by (rule burst(2) [OF assms])
next
  fix h assume h: "h \<in> {length (hooks s) ..< length (hooks s) + K}"
  have eq: "hooks (settle (length (promises s)) out (run (replicate K Mount) s)) ! h
      = resolved_hook (fetch_job out)"
    using h by (rule burst(6) [OF assms])
  show "settings (hooks (settle (length (promises s)) out (run (replicate K Mount) s)) ! h)
      = (case fetch_job out of Inr v \<Rightarrow> v | Inl t \<Rightarrow> DEFAULT_SITE_SETTINGS)"
    unfolding eq by (simp add: resolved_hook_simps)
  show "\<not> isLoading (hooks (settle (length (promises s)) out (run (replicate K Mount) s)) ! h)"
    unfolding eq by (simp add: resolved_hook_simps)
qed

text \<open>C1 at three hooks mounting in the initial state, answered with zero rows.\<close>

theorem single_flight_witness:
  "requests (run (replicate 3 Mount) initial) = 1 \<and>
   settings (hooks (settle 0 zero_rows (run (replicate 3 Mount) initial)) ! 0)
     = DEFAULT_SITE_SETTINGS \<and>
   settings (hooks (settle 0 zero_rows (run (replicate 3 Mount) initial)) ! 1)
     = DEFAULT_SITE_SETTINGS \<and>
   settings (hooks (settle 0 zero_rows (run (replicate 3 Mount) initial)) ! 2)
     = DEFAULT_SITE_SETTINGS"
proof -
  have a: "(1::nat) \<le> 3" by simp
  from single_flight [OF a initial_simps(1,2), of zero_rows]
  show ?thesis unfolding fetch_job_examples initial_simps by simp
qed




text \<open>
  C4 (failure fallback). When the fetch that \<open>K \<ge> 1\<close> hooks wait for fails, because
  \<^verbatim>\<open>fetch\<close> rejects or the status is not 2xx, every one of the hooks ends with the default
  settings and a non-null error and is no longer loading; the cache slot is still empty,
  and the next hook to mount calls \<^verbatim>\<open>fetch\<close> again. In any state at all, the answer
  to a failed fetch leaves the cache slot as it was.
\<close>

theorem failure_fallback:
  fixes s :: module_state and K :: nat and out :: fetch_outcome
  assumes "1 \<le> K" and "settingsCache s = None" and "fetchPromise s = None"
    and "out = FetchRejects t \<or> (\<exists>r. out = FetchResponds r \<and> \<not> ok r)"
  defines "s2 \<equiv> settle (length (promises s)) out (run (replicate K Mount) s)"
  shows "(\<forall>h \<in> {length (hooks s) ..< length (hooks s) + K}.
            settings (hooks s2 ! h) = DEFAULT_SITE_SETTINGS \<and> error (hooks s2 ! h) \<noteq> None
            \<and> \<not> isLoading (hooks s2 ! h)) \<and>
         settingsCache s2 = None \<and>
         requests (useSiteSettings s2) = requests s2 + 1 \<and>
         (\<forall>p s'. settingsCache (settle p out s') = settingsCache s')"
proof -
  obtain e where j: "fetch_job out = Inl e"
    using failing_job [OF assms(4)] by blast
  have c2: "settingsCache s2 = None" and f2: "fetchPromise s2 = None"
    unfolding s2_def using burst(3,4) [OF assms(1-3), of out] by (simp_all add: j)
  have n: "requests (useSiteSettings s2) = requests s2 + 1"
    by (simp add: mount_first [OF c2 f2])
  have "settings (hooks s2 ! h) = DEFAULT_SITE_SETTINGS \<and> error (hooks s2 ! h) \<noteq> None
            \<and> \<not> isLoading (hooks s2 ! h)"
    if "h \<in> {length (hooks s) ..< length (hooks s) + K}" for h
  proof -
    have eq: "hooks s2 ! h = resolved_hook (fetch_job out)"
      unfolding s2_def using that by (rule burst(6) [OF assms(1-3)])
    show ?thesis unfolding eq by (simp add: j resolved_hook_simps)
  qed
  then show ?thesis using c2 n settle_failure_cache [OF j] by blast
qed

text \<open>C4 at two hooks and a response with status 500.\<close>

theorem failure_fallback_witness:
  "settings (hooks (settle 0 server_error (run (replicate 2 Mount) initial)) ! 0)
     = DEFAULT_SITE_SETTINGS \<and>
   error (hooks (settle 0 server_error (run (replicate 2 Mount) initial)) ! 0) \<noteq> None \<and>
   settings (hooks (settle 0 server_error (run (replicate 2 Mount) initial)) ! 1)
     = DEFAULT_SITE_SETTINGS \<and>
   error (hooks (settle 0 server_error (run (replicate 2 Mount) initial)) ! 1) \<noteq> None \<and>
   settingsCache (settle 0 server_error (run (replicate 2 Mount) initial)) = None \<and>
   requests (useSiteSettings (settle 0 server_error (run (replicate 2 Mount) initial)))
     = requests (settle 0 server_error (run (replicate 2 Mount) initial)) + 1"
proof -
  have a: "(1::nat) \<le> 2" by simp
  have b: "server_error = FetchRejects ThrownOther \<or>
      (\<exists>r. server_error = FetchResponds r \<and> \<not> ok r)"
    by (simp add: server_error_def ok_def)
  have p: "length (promises initial) = 0" by (simp add: initial_simps)
  have h0: "0 \<in> {length (hooks initial) ..< length (hooks initial) + 2}"
    and h1: "1 \<in> {length (hooks initial) ..< length (hooks initial) + 2}"
    by (simp_all add: initial_simps)
  from failure_fallback [OF a initial_simps(1,2) b, unfolded p] h0 h1
  show ?thesis by blast
qed

text \<open>
  C5 (fast path and invalidation). Once the cache slot holds a value, no sequence of
  events without \<^verbatim>\<open>clearSiteSettingsCache\<close> calls \<^verbatim>\<open>fetch\<close>; after any such sequence the
  slot still holds a value, and a hook that mounts then gets exactly that value at once,
  not loading, with nothing else in the state changed. Calling
  \<^verbatim>\<open>clearSiteSettingsCache\<close> and then mounting a hook calls \<^verbatim>\<open>fetch\<close> exactly once more.
\<close>

theorem fast_path:
  assumes "settingsCache s = Some v" and "Clear \<notin> set evs"
  shows "requests (run evs s) = requests s \<and>
         (\<exists>c. settingsCache (run evs s) = Some c \<and>
              useSiteSettings (run evs s) =
                (run evs s)\<lparr>hooks := hooks (run evs s) @
                  [\<lparr>settings = c, isLoading = False, error = None, isMounted = True\<rparr>]\<rparr>) \<and>
         requests (useSiteSettings (clearSiteSettingsCache (run evs s))) = requests s + 1"
proof -
  have "settingsCache s \<noteq> None" using assms(1) by simp
  from run_cached [OF this assms(2)]
  obtain c where c: "settingsCache (run evs s) = Some c"
    and r: "requests (run evs s) = requests s" by auto
  have "requests (useSiteSettings (clearSiteSettingsCache (run evs s))) = requests s + 1"
    by (subst mount_first) (simp_all add: clearSiteSettingsCache_def r)
  then show ?thesis using c r mount_cached [OF c] by simp
qed

text \<open>C5 after a first fetch answered with zero rows, followed by a mount, an unmount and
  another mount.\<close>

theorem fast_path_witness:
  "requests (run [Mount, Unmount 0, Mount]
      (settle 0 zero_rows (run (replicate 1 Mount) initial))) = 1 \<and>
   requests (useSiteSettings (clearSiteSettingsCache (run [Mount, Unmount 0, Mount]
      (settle 0 zero_rows (run (replicate 1 Mount) initial))))) = 2"
proof -
  have a: "(1::nat) \<le> 1" by simp
  have c: "settingsCache (settle 0 zero_rows (run (replicate 1 Mount) initial))
      = Some DEFAULT_SITE_SETTINGS"
    using burst(3) [OF a initial_simps(1,2), of zero_rows]
    by (simp add: initial_simps fetch_job_examples)
  have r: "requests (settle 0 zero_rows (run (replicate 1 Mount) initial)) = 1"
    using burst(2) [OF a initial_simps(1,2), of zero_rows] by (simp add: initial_simps)
  have e: "Clear \<notin> set [Mount, Unmount 0, Mount]" by simp
  from fast_path [OF c e] show ?thesis unfolding r by simp
qed

text \<open>
  C7 (default substitution). A response with a 2xx status whose body is the empty array
  fulfils the promise with the default settings (a success: the error of each of the
  \<open>K \<ge> 1\<close> waiting hooks is null, and each shows the defaults); and for every row, the
  four sequence-valued fields of \<open>rowToSiteSettings row\<close> are non-empty, each being the
  default list when the stored sequence is null, missing or empty.
\<close>

theorem default_substitution:
  fixes s :: module_state and K :: nat and r :: response
  assumes "1 \<le> K" and "settingsCache s = None" and "fetchPromise s = None"
    and "ok r" and "json r = JsonValue (JsonArray [])"
  defines "s2 \<equiv> settle (length (promises s)) (FetchResponds r) (run (replicate K Mount) s)"
  shows "promises s2 ! length (promises s) = Fulfilled DEFAULT_SITE_SETTINGS \<and>
         (\<forall>h \<in> {length (hooks s) ..< length (hooks s) + K}.
            settings (hooks s2 ! h) = DEFAULT_SITE_SETTINGS \<and> error (hooks s2 ! h) = None
            \<and> \<not> isLoading (hooks s2 ! h)) \<and>
         navigationItems (rowToSiteSettings row) \<noteq> [] \<and>
         footerAboutLinks (rowToSiteSettings row) \<noteq> [] \<and>
         footerPracticeLinks (rowToSiteSettings row) \<noteq> [] \<and>
         socialLinks (rowToSiteSettings row) \<noteq> [] \<and>
         (navigation_items row \<in> {None, Some []} \<longrightarrow>
            navigationItems (rowToSiteSettings row) = navigationItems DEFAULT_SITE_SETTINGS) \<and>
         (footer_about_links row \<in> {None, Some []} \<longrightarrow>
            footerAboutLinks (rowToSiteSettings row) = footerAboutLinks DEFAULT_SITE_SETTINGS) \<and>
         (footer_practice_links row \<in> {None, Some []} \<longrightarrow>
            footerPracticeLinks (rowToSiteSettings row)
              = footerPracticeLinks DEFAULT_SITE_SETTINGS) \<and>
         (social_links row \<in> {None, Some []} \<longrightarrow>
            socialLinks (rowToSiteSettings row) = socialLinks DEFAULT_SITE_SETTINGS)"
proof -
  have j: "fetch_job (FetchResponds r) = Inr DEFAULT_SITE_SETTINGS"
    using assms(4,5) by (simp add: fetch_job_def)
  have p: "promises s2 ! length (promises s) = Fulfilled DEFAULT_SITE_SETTINGS"
    unfolding s2_def using burst(5) [OF assms(1-3), of "FetchResponds r"] by (simp add: j)
  have h: "settings (hooks s2 ! h) = DEFAULT_SITE_SETTINGS \<and> error (hooks s2 ! h) = None
            \<and> \<not> isLoading (hooks s2 ! h)"
    if "h \<in> {length (hooks s) ..< length (hooks s) + K}" for h
  proof -
    have eq: "hooks s2 ! h = resolved_hook (fetch_job (FetchResponds r))"
      unfolding s2_def using that by (rule burst(6) [OF assms(1-3)])
    show ?thesis unfolding eq by (simp add: j resolved_hook_simps)
  qed
  have l: "navigationItems (rowToSiteSettings row) \<noteq> []"
      "footerAboutLinks (rowToSiteSettings row) \<noteq> []"
      "footerPracticeLinks (rowToSiteSettings row) \<noteq> []"
      "socialLinks (rowToSiteSettings row) \<noteq> []"
    unfolding rowToSiteSettings_lists
    by (rule length_or_nonempty, rule default_lists_nonempty)+
  have d: "navigation_items row \<in> {None, Some []} \<longrightarrow>
            navigationItems (rowToSiteSettings row) = navigationItems DEFAULT_SITE_SETTINGS"
      "footer_about_links row \<in> {None, Some []} \<longrightarrow>
            footerAboutLinks (rowToSiteSettings row) = footerAboutLinks DEFAULT_SITE_SETTINGS"
      "footer_practice_links row \<in> {None, Some []} \<longrightarrow>
            footerPracticeLinks (rowToSiteSettings row)
              = footerPracticeLinks DEFAULT_SITE_SETTINGS"
      "social_links row \<in> {None, Some []} \<longrightarrow>
            socialLinks (rowToSiteSettings row) = socialLinks DEFAULT_SITE_SETTINGS"
    unfolding rowToSiteSettings_lists using length_or_default by blast+
  show ?thesis using p h l d by blast
qed

text \<open>C7 at two hooks, and at a row whose navigation items are the empty array.\<close>

theorem default_substitution_witness:
  "ok \<lparr>status = 200, json = JsonValue (JsonArray [])\<rparr> \<and>
   settings (hooks (settle 0 (FetchResponds \<lparr>status = 200, json = JsonValue (JsonArray [])\<rparr>)
     (run (replicate 2 Mount) initial)) ! 0) = DEFAULT_SITE_SETTINGS \<and>
   error (hooks (settle 0 (FetchResponds \<lparr>status = 200, json = JsonValue (JsonArray [])\<rparr>)
     (run (replicate 2 Mount) initial)) ! 1) = None \<and>
   navigation_items (example_row\<lparr>navigation_items := Some []\<rparr>) = Some [] \<and>
   navigationItems (rowToSiteSettings (example_row\<lparr>navigation_items := Some []\<rparr>))
     = navigationItems DEFAULT_SITE_SETTINGS"
proof -
  have a: "(1::nat) \<le> 2" by simp
  have o: "ok \<lparr>status = 200, json = JsonValue (JsonArray [])\<rparr>" by (simp add: ok_def)
  have j: "json \<lparr>status = 200, json = JsonValue (JsonArray [])\<rparr> = JsonValue (JsonArray [])"
    by simp
  have n: "navigation_items (example_row\<lparr>navigation_items := Some []\<rparr>) = Some []"
    by simp
  from default_substitution [OF a initial_simps(1,2) o j,
      of "example_row\<lparr>navigation_items := Some []\<rparr>"] o n
  show ?thesis unfolding initial_simps by simp
qed

text \<open>
  C10 (invalidation does not detach a fetch in flight). A hook starts a fetch while the
  cache slot is empty; then any events happen except the answer to that fetch, and
  \<^verbatim>\<open>clearSiteSettingsCache\<close> is called: both slots are empty. When the answer then arrives
  and is a success with settings \<open>v\<close>, the cache slot holds \<open>v\<close>.
\<close>

theorem invalidate_keeps_fetch:
  fixes s :: module_state
  assumes "settingsCache s = None" and "fetchPromise s = None"
    and "\<And>out'. Respond (length (promises s)) out' \<notin> set evs"
    and "fetch_job out = Inr v"
  defines "s1 \<equiv> run (evs @ [Clear]) (useSiteSettings s)"
  shows "settingsCache s1 = None \<and> fetchPromise s1 = None \<and>
         settingsCache (settle (length (promises s)) out s1) = Some v"
proof -
  have "in_flight (length (promises s)) (length (hooks s)) (useSiteSettings s)"
    by (simp add: mount_first [OF assms(1,2)] in_flight_def)
  then have "in_flight (length (promises s)) (length (hooks s)) (run evs (useSiteSettings s))"
    using assms(3) by (rule run_in_flight)
  then have "in_flight (length (promises s)) (length (hooks s)) s1"
    unfolding s1_def by (simp add: run_snoc in_flight_def clearSiteSettingsCache_def)
  then have "settingsCache (settle (length (promises s)) out s1) = Some v"
    using assms(4) by (rule settle_in_flight_success)
  then show ?thesis
    unfolding s1_def by (simp add: run_snoc clearSiteSettingsCache_def)
qed

text \<open>C10 with a second hook joining before the invalidation, answered with zero rows.\<close>

theorem invalidate_keeps_fetch_witness:
  "settingsCache (run ([Mount] @ [Clear]) (useSiteSettings initial)) = None \<and>
   settingsCache (settle 0 zero_rows (run ([Mount] @ [Clear]) (useSiteSettings initial)))
     = Some DEFAULT_SITE_SETTINGS"
proof -
  have e: "Respond (length (promises initial)) out' \<notin> set [Mount]" for out' by simp
  from invalidate_keeps_fetch [OF initial_simps(1,2) e fetch_job_examples(1)]
  show ?thesis unfolding initial_simps by simp
qed

section \<open>The claims about the row mapping\<close>

text \<open>
  C3, as stated, fails: in a row whose columns are all non-null and whose sequences are
  non-empty, but whose logo URL is the empty string, the round trip gives back the default
  logo URL, not the empty string.
\<close>

theorem blank_text_not_round_tripped:
  "all_fields_populated blank_logo_row \<and>
   logo_url (siteSettingsToRow (rowToSiteSettings blank_logo_row)) \<noteq> logo_url blank_logo_row"
  by (simp add: all_fields_populated_def blank_logo_row_def example_row_def
      siteSettingsToRow_def rowToSiteSettings_def or_else_def DEFAULT_SITE_SETTINGS_def)

text \<open>
  C3, amended (row round trip). For every row whose columns are all non-null, whose text
  columns are non-empty strings and whose sequences are non-empty, \<open>rowToSiteSettings\<close>
  followed by \<open>siteSettingsToRow\<close> gives exactly the content columns of the row.
\<close>

theorem row_round_trip:
  assumes "all_fields_populated row" and "text_fields_nonempty row"
  shows "siteSettingsToRow (rowToSiteSettings row) = SiteSettingsColumns.truncate row"
  using assms
  unfolding all_fields_populated_def text_fields_nonempty_def
  by (simp add: siteSettingsToRow_def rowToSiteSettings_def SiteSettingsColumns.truncate_def
      or_else_Some or_null_or_else nullish_Some length_or_Some)

text \<open>C3 amended, at the example row.\<close>

theorem row_round_trip_witness:
  "all_fields_populated example_row \<and> text_fields_nonempty example_row \<and>
   siteSettingsToRow (rowToSiteSettings example_row) = SiteSettingsColumns.truncate example_row"
  using row_round_trip [OF example_row_populated] example_row_populated by simp

text \<open>
  C6, as stated, fails for the text fields other than the analytics and script fields:
  an empty logo URL is carried through as the empty string, not as null.
\<close>

theorem empty_logo_url_carried_through:
  "logoUrl blank_logo_settings = [] \<and>
   logo_url (siteSettingsToRow blank_logo_settings) = Some []"
  by (simp add: blank_logo_settings_def siteSettingsToRow_def)

text \<open>
  C6, amended. For every settings value, \<open>siteSettingsToRow\<close> maps each of the five
  analytics and script fields to null when it is the empty string, and carries each of the
  other twelve text fields through unchanged, empty or not.
\<close>

theorem empty_analytics_to_null:
  "(ga4MeasurementId s = [] \<longrightarrow> ga4_measurement_id (siteSettingsToRow s) = None) \<and>
   (googleAdsId s = [] \<longrightarrow> google_ads_id (siteSettingsToRow s) = None) \<and>
   (googleAdsConversionLabel s = [] \<longrightarrow>
      google_ads_conversion_label (siteSettingsToRow s) = None) \<and>
   (headScripts s = [] \<longrightarrow> head_scripts (siteSettingsToRow s) = None) \<and>
   (footerScripts s = [] \<longrightarrow> footer_scripts (siteSettingsToRow s) = None) \<and>
   site_name (siteSettingsToRow s) = Some (siteName s) \<and>
   logo_url (siteSettingsToRow s) = Some (logoUrl s) \<and>
   logo_alt (siteSettingsToRow s) = Some (logoAlt s) \<and>
   phone_number (siteSettingsToRow s) = Some (phoneNumber s) \<and>
   phone_display (siteSettingsToRow s) = Some (phoneDisplay s) \<and>
   phone_availability (siteSettingsToRow s) = Some (phoneAvailability s) \<and>
   header_cta_text (siteSettingsToRow s) = Some (headerCtaText s) \<and>
   header_cta_url (siteSettingsToRow s) = Some (headerCtaUrl s) \<and>
   address_line1 (siteSettingsToRow s) = Some (addressLine1 s) \<and>
   address_line2 (siteSettingsToRow s) = Some (addressLine2 s) \<and>
   map_embed_url (siteSettingsToRow s) = Some (mapEmbedUrl s) \<and>
   copyright_text (siteSettingsToRow s) = Some (copyrightText s)"
  by (simp add: siteSettingsToRow_def or_null_def)

text \<open>C6 amended, at the default settings, whose analytics and script fields are empty.\<close>

theorem empty_analytics_to_null_witness:
  "ga4MeasurementId DEFAULT_SITE_SETTINGS = [] \<and>
   ga4_measurement_id (siteSettingsToRow DEFAULT_SITE_SETTINGS) = None \<and>
   head_scripts (siteSettingsToRow DEFAULT_SITE_SETTINGS) = None"
proof -
  have e: "ga4MeasurementId DEFAULT_SITE_SETTINGS = []" "googleAdsId DEFAULT_SITE_SETTINGS = []"
    "googleAdsConversionLabel DEFAULT_SITE_SETTINGS = []"
    "headScripts DEFAULT_SITE_SETTINGS = []" "footerScripts DEFAULT_SITE_SETTINGS = []"
    by (simp_all add: DEFAULT_SITE_SETTINGS_def)
  from empty_analytics_to_null [of DEFAULT_SITE_SETTINGS] e show ?thesis by blast
qed

section \<open>The claims about the editors\<close>

text \<open>
  C8, as stated, fails for the text areas that edit a list. The example home page has
  every section its editor reads, so the editor renders it; the handler of the mission
  paragraphs, called with the text \<open>a\<close>, calls \<^verbatim>\<open>onChange\<close> once, with a document whose
  \<^verbatim>\<open>mission.paragraphs\<close> is a new array holding \<open>a\<close>, not the text \<open>a\<close>.
\<close>

theorem list_input_writes_a_list:
  "inputs (PageContentEditor ''/'') paragraphs_input \<and>
   closed home_store \<and>
   renders (PageContentEditor ''/'') home_store (Ref 0) \<and>
   walkable home_store (Ref 0) (path paragraphs_input) \<and>
   handle home_store (Ref 0) paragraphs_input ''a'' =
     Some (home_store @
             [Array [Str ''a''],
              Object [(''heading'', Str ''Our mission''), (''paragraphs'', Ref 17)],
              Object [(''hero'', Ref 1), (''features'', Ref 2), (''mission'', Ref 18),
                      (''attorney'', Ref 7), (''speakWithUs'', Ref 9),
                      (''clientStories'', Ref 10), (''contactForm'', Ref 13),
                      (''services'', Ref 14)]],
           [Ref 19]) \<and>
   at (home_store @
             [Array [Str ''a''],
              Object [(''heading'', Str ''Our mission''), (''paragraphs'', Ref 17)],
              Object [(''hero'', Ref 1), (''features'', Ref 2), (''mission'', Ref 18),
                      (''attorney'', Ref 7), (''speakWithUs'', Ref 9),
                      (''clientStories'', Ref 10), (''contactForm'', Ref 13),
                      (''services'', Ref 14)]])
      (Ref 19) (path paragraphs_input) = Ref 17 \<and>
   Ref 17 \<noteq> Str ''a''"
proof -
  have i: "inputs (PageContentEditor ''/'') paragraphs_input"
    by (simp add: PageContentEditor_def HomePageEditor_def paragraphs_input_def)
  have w: "walkable home_store (Ref 0) (path paragraphs_input)"
    by (simp add: paragraphs_input_def home_store_def fields_def get_def)
  have r: "handle home_store (Ref 0) paragraphs_input ''a'' =
     Some (home_store @
             [Array [Str ''a''],
              Object [(''heading'', Str ''Our mission''), (''paragraphs'', Ref 17)],
              Object [(''hero'', Ref 1), (''features'', Ref 2), (''mission'', Ref 18),
                      (''attorney'', Ref 7), (''speakWithUs'', Ref 9),
                      (''clientStories'', Ref 10), (''contactForm'', Ref 13),
                      (''services'', Ref 14)]],
           [Ref 19])"
    by (simp add: paragraphs_input_def home_store_def split_filter_a alloc_def
        spread_set_def update_def get_def fields_def)
  have a: "at (home_store @
             [Array [Str ''a''],
              Object [(''heading'', Str ''Our mission''), (''paragraphs'', Ref 17)],
              Object [(''hero'', Ref 1), (''features'', Ref 2), (''mission'', Ref 18),
                      (''attorney'', Ref 7), (''speakWithUs'', Ref 9),
                      (''clientStories'', Ref 10), (''contactForm'', Ref 13),
                      (''services'', Ref 14)]])
      (Ref 19) (path paragraphs_input) = Ref 17"
    by (simp add: paragraphs_input_def home_store_def get_def fields_def)
  from i w r a home_store_closed home_store_renders_root show ?thesis by simp
qed

text \<open>
  C8, amended (editor immutability). Take any input \<open>c\<close> of the editor that the page key
  selects (home, about, contact or practice areas), a store without dangling references
  and a document that this editor renders and in which the containers on the path of
  \<open>c\<close> exist (for an input in a list, its row). Then the change handler of \<open>c\<close>, called
  with the text \<open>v\<close>, calls \<^verbatim>\<open>onChange\<close> exactly once, with a document \<open>doc\<close> such that:
  every cell the store had is unchanged (nothing of the input document is mutated); the
  member at the path of \<open>c\<close> is \<open>v\<close>, or, for a text area that edits a list, an array of
  the non-empty pieces of \<open>v\<close>; and every path that parts from the path of \<open>c\<close> leads to
  the same value in \<open>doc\<close> as in the input document, a reference into the unchanged part
  of the store where it is an object or an array.
\<close>

theorem editor_immutability:
  assumes "inputs (PageContentEditor pageKey) c"
    and "closed h" and "walkable h content (path c)"
    and "renders (PageContentEditor pageKey) h content"
  shows "\<exists>h' doc. handle h content c v = Some (h', [doc]) \<and>
           take (length h) h' = h \<and>
           entered h' (at h' doc (path c)) c v \<and>
           (\<forall>q. \<not> prefix q (path c) \<and> \<not> prefix (path c) q \<longrightarrow>
                 at h' doc q = at h content q)"
proof -
  have vc: "valid h content" using assms(3) by (rule walkable_path_valid)
  obtain h0 x where l: "leaf h c v = (h0, x)" by (cases "leaf h c v")
  from leaf_frame [OF assms(2) l] obtain ext0
    where h0: "h0 = h @ ext0" and cl0: "closed h0" and vx: "valid h0 x"
      and en: "entered h0 x c v" by blast
  have vc0: "valid h0 content" unfolding h0 using vc by (rule valid_ext)
  have w0: "walkable h0 content (path c)"
    unfolding h0 using assms(2,3) vc by (simp add: walkable_ext)
  from cow_total [OF w0 cl0 vc0 vx] obtain h' doc
    where c: "cow h0 content (path c) x = Some (h', doc)" by blast
  from cow_frame [OF c cl0 vc0 vx] obtain ext
    where h': "h' = h0 @ ext" and atp: "at h' doc (path c) = x"
      and fr: "\<And>q. \<not> prefix q (path c) \<Longrightarrow> \<not> prefix (path c) q \<Longrightarrow>
                 at h' doc q = at h0 content q"
    by blast
  have 1: "handle h content c v = Some (h', [doc])"
    by (simp add: handle_cow [OF vc] l c)
  have 2: "take (length h) h' = h" by (simp add: h' h0)
  have "entered (h0 @ ext) x c v" using vx en by (rule entered_ext)
  then have 3: "entered h' (at h' doc (path c)) c v" using atp unfolding h' by simp
  have 4: "at h' doc q = at h content q"
    if "\<not> prefix q (path c)" "\<not> prefix (path c) q" for q
  proof -
    have "at h' doc q = at h0 content q" using that by (rule fr)
    also have "\<dots> = at h content q" unfolding h0 using assms(2) vc by (rule at_ext)
    finally show ?thesis .
  qed
  from 1 2 3 4 show ?thesis by blast
qed

text \<open>C8 amended, at the title of the second feature of the example home page.\<close>

theorem editor_immutability_witness:
  "inputs (PageContentEditor ''/home'') feature_title_input \<and>
   closed home_store \<and>
   walkable home_store (Ref 0) (path feature_title_input) \<and>
   renders (PageContentEditor ''/home'') home_store (Ref 0) \<and>
   (\<exists>h' doc. handle home_store (Ref 0) feature_title_input ''New'' = Some (h', [doc]) \<and>
      take (length home_store) h' = home_store \<and>
      at h' doc [Key ''features'', Idx 1, Key ''title''] = Str ''New'' \<and>
      at h' doc [Key ''features'', Idx 1, Key ''icon'']
        = at home_store (Ref 0) [Key ''features'', Idx 1, Key ''icon''] \<and>
      at h' doc [Key ''features'', Idx 0]
        = at home_store (Ref 0) [Key ''features'', Idx 0] \<and>
      at h' doc [Key ''mission''] = at home_store (Ref 0) [Key ''mission''])"
proof -
  from editor_immutability [OF feature_title_is_input home_store_closed feature_title_walkable
      home_store_renders, of "''New''"]
  obtain h' doc where r: "handle home_store (Ref 0) feature_title_input ''New'' = Some (h', [doc])"
    and t: "take (length home_store) h' = home_store"
    and e: "entered h' (at h' doc (path feature_title_input)) feature_title_input ''New''"
    and f: "\<And>q. \<not> prefix q (path feature_title_input) \<Longrightarrow>
                \<not> prefix (path feature_title_input) q \<Longrightarrow>
                at h' doc q = at home_store (Ref 0) q"
    by blast
  have 1: "at h' doc [Key ''features'', Idx 1, Key ''title''] = Str ''New''"
    using e by (simp add: feature_title_input_def)
  have 2: "at h' doc [Key ''features'', Idx 1, Key ''icon'']
        = at home_store (Ref 0) [Key ''features'', Idx 1, Key ''icon'']"
    by (rule f) (simp_all add: feature_title_input_def)
  have 3: "at h' doc [Key ''features'', Idx 0] = at home_store (Ref 0) [Key ''features'', Idx 0]"
    by (rule f) (simp_all add: feature_title_input_def)
  have 4: "at h' doc [Key ''mission''] = at home_store (Ref 0) [Key ''mission'']"
    by (rule f) (simp_all add: feature_title_input_def)
  from r t 1 2 3 4 feature_title_is_input home_store_closed feature_title_walkable
    home_store_renders
  show ?thesis by blast
qed

text \<open>
  C9 (fallback parse guard). When the text does not parse, the handler of the fallback
  editor's text area does not call \<^verbatim>\<open>onChange\<close>, and the owner of the editor holds the
  document it held before; \<^verbatim>\<open>onChange\<close> is called exactly when the text parses, and then
  once, with the parsed document.
\<close>

theorem fallback_parse_guard:
  "(parse text = None \<longrightarrow>
      fallback_handler parse text = [] \<and> held content (fallback_handler parse text) = content) \<and>
   (fallback_handler parse text \<noteq> [] \<longleftrightarrow> parse text \<noteq> None) \<and>
   (\<forall>doc. parse text = Some doc \<longrightarrow> fallback_handler parse text = [doc])"
  by (cases "parse text") (simp_all add: fallback_handler_def held_def)

text \<open>C9 with a parser that accepts only \<^verbatim>\<open>{}\<close>, at the texts \<^verbatim>\<open>{\<close> and \<^verbatim>\<open>{}\<close>.\<close>

theorem fallback_parse_guard_witness:
  "parse_empty_object ''{'' = None \<and>
   fallback_handler parse_empty_object ''{'' = [] \<and>
   held (7::nat) (fallback_handler parse_empty_object ''{'') = 7 \<and>
   parse_empty_object ''{}'' = Some 0 \<and>
   fallback_handler parse_empty_object ''{}'' = [0]"
proof -
  have a: "parse_empty_object ''{'' = None" and b: "parse_empty_object ''{}'' = Some 0"
    by (simp_all add: parse_empty_object_def)
  from fallback_parse_guard [of parse_empty_object "''{''" "7::nat"]
    fallback_parse_guard [of parse_empty_object "''{}''" "7::nat"] a b
  show ?thesis by (simp add: held_def)
qed

end
